theory Spec2Isabelle
  imports Complex_Main "HOL-Library.Multiset"
begin

section \<open>Numbers\<close>

text \<open>
  The editor computes with JavaScript numbers, which are IEEE 754 doubles. A double is
  modelled by the real number it denotes; NaN, the infinities, the sign of zero and
  overflow are not modelled. Where a statement depends on how a result rounds (the
  timestamp loop of a sampling run, the arithmetic of a timeline drag and the end of a
  new annotation) every arithmetic operation of the source is the exact operation
  followed by the rounding \<open>fl\<close> defined below. Comparisons, \<^verbatim>\<open>Math.min\<close> and
  \<^verbatim>\<open>Math.max\<close> are exact in doubles. The geometry, the track keys and the progress
  value are computed without rounding; the statements about them are statements about
  exact arithmetic.
\<close>

text \<open>\<^verbatim>\<open>clamp(val, min, max) = Math.min(max, Math.max(min, val))\<close>, in both components.\<close>

definition clamp :: "real \<Rightarrow> real \<Rightarrow> real \<Rightarrow> real" where
  "clamp val mn mx = min mx (max mn val)"

text \<open>\<^verbatim>\<open>Math.round\<close> rounds to the nearest integer, halves towards plus infinity.\<close>

definition Math_round :: "real \<Rightarrow> int" where
  "Math_round v = \<lfloor>v + 1 / 2\<rfloor>"

text \<open>
  A JavaScript division never raises; on a zero divisor it yields an infinity or NaN.
  The model's division by a computed divisor returns \<open>None\<close> there, so that a
  division by zero is visible in the result of the function that performs it.
\<close>

definition js_div :: "real \<Rightarrow> real \<Rightarrow> real option" where
  "js_div p q = (if q = 0 then None else Some (p / q))"

subsection \<open>Rounding to double precision\<close>

text \<open>The power of two with an integer exponent.\<close>

definition pow2 :: "int \<Rightarrow> real" where
  "pow2 e = (if 0 \<le> e then 2 ^ nat e else 1 / 2 ^ nat (- e))"

text \<open>The nearest integer, a tie going to the even one.\<close>

definition roundEven :: "real \<Rightarrow> int" where
  "roundEven r =
    (let f = \<lfloor>r\<rfloor>; d = r - of_int f
     in if d < 1 / 2 then f else if 1 / 2 < d then f + 1 else if even f then f else f + 1)"

text \<open>
  The binary exponent of a double's binade: \<open>\<lfloor>log\<^sub>2 |x|\<rfloor>\<close>, and \<open>-1022\<close> in the
  subnormal range. The spacing of the doubles around \<open>x\<close> is \<open>ulp x\<close>, 52 binary places
  below the exponent.
\<close>

definition expo :: "real \<Rightarrow> int" where
  "expo x = (if x = 0 then - 1022 else max (- 1022) \<lfloor>log 2 \<bar>x\<bar>\<rfloor>)"

definition ulp :: "real \<Rightarrow> real" where
  "ulp x = pow2 (expo x - 52)"

text \<open>
  Round to nearest, ties to even: the result of every arithmetic operation on doubles is
  \<open>fl\<close> of the exact result.
\<close>

definition fl :: "real \<Rightarrow> real" where
  "fl x = (if x = 0 then 0 else of_int (roundEven (x / ulp x)) * ulp x)"

text \<open>
  The literals \<^verbatim>\<open>0.1\<close> and \<^verbatim>\<open>1e-6\<close> of the source are the doubles nearest to 1/10 and
  to 1/1000000.
\<close>

definition tenth :: real where
  "tenth = fl (1 / 10)"


section \<open>Data model\<close>

text \<open>\<^verbatim>\<open>type TriangleAnnotation\<close> of video-editor.tsx.\<close>

record TriangleAnnotation =
  anno_id :: string
  anno_x :: real
  anno_y :: real
  anno_size :: real
  anno_color :: string
  anno_strokeWidth :: real
  anno_start :: real
  anno_end :: real
  anno_label :: "string option"

section \<open>Triangle geometry\<close>

text \<open>
  The stroke that \<^verbatim>\<open>drawTriangleOnContext\<close> issues on a canvas of the given size:
  line width, stroke style and the three vertices of the closed path.
\<close>

record TriangleStroke =
  stroke_lineWidth :: real
  stroke_style :: string
  stroke_p1 :: "real \<times> real"
  stroke_p2 :: "real \<times> real"
  stroke_p3 :: "real \<times> real"

definition drawTriangleOnContext :: "real \<Rightarrow> real \<Rightarrow> TriangleAnnotation \<Rightarrow> TriangleStroke" where
  "drawTriangleOnContext width height tri =
    (let centerX = anno_x tri * width;
         centerY = anno_y tri * height;
         minDim = min width height;
         sideLength = anno_size tri * minDim;
         triangleHeight = sideLength * sqrt 3 / 2;
         halfBase = sideLength / 2;
         centroidOffset = triangleHeight / 3
     in \<lparr> stroke_lineWidth = max 1 ((anno_strokeWidth tri * minDim) / 1080),
          stroke_style = anno_color tri,
          stroke_p1 = (centerX, centerY - (triangleHeight - centroidOffset)),
          stroke_p2 = (centerX - halfBase, centerY + centroidOffset),
          stroke_p3 = (centerX + halfBase, centerY + centroidOffset) \<rparr>)"

text \<open>
  \<^verbatim>\<open>isPointInTriangle\<close>: the vertices are recomputed inline as in the source, the
  early return on a near-zero determinant comes before the two divisions by it.
\<close>

definition isPointInTriangle ::
  "real \<Rightarrow> real \<Rightarrow> TriangleAnnotation \<Rightarrow> real \<Rightarrow> real \<Rightarrow> bool option" where
  "isPointInTriangle px py triangle videoWidth videoHeight =
    (let minDim = min videoWidth videoHeight;
         sideLength = anno_size triangle * minDim;
         triangleHeight = sideLength * sqrt 3 / 2;
         halfBase = sideLength / 2;
         centroidOffset = triangleHeight / 3;
         centerX = anno_x triangle * videoWidth;
         centerY = anno_y triangle * videoHeight;
         ax = centerX;
         ay = centerY - (triangleHeight - centroidOffset);
         bx = centerX - halfBase;
         by = centerY + centroidOffset;
         cx = centerX + halfBase;
         cy = centerY + centroidOffset;
         clickX = px * videoWidth;
         clickY = py * videoHeight;
         denom = (by - cy) * (ax - cx) + (cx - bx) * (ay - cy)
     in if \<bar>denom\<bar> < 1 / 10 ^ 10 then Some False
        else
          (case js_div ((by - cy) * (clickX - cx) + (cx - bx) * (clickY - cy)) denom of
             None \<Rightarrow> None
           | Some a \<Rightarrow>
              (case js_div ((cy - ay) * (clickX - cx) + (ax - cx) * (clickY - cy)) denom of
                 None \<Rightarrow> None
               | Some b \<Rightarrow>
                  (let c = 1 - a - b in Some (a \<ge> 0 \<and> b \<ge> 0 \<and> c \<ge> 0)))))"

text \<open>
  The determinant of the barycentric solve for three vertices (the source's
  \<^verbatim>\<open>denom\<close>), used to state when a triangle is degenerate.
\<close>

definition baryDenom :: "real \<times> real \<Rightarrow> real \<times> real \<Rightarrow> real \<times> real \<Rightarrow> real" where
  "baryDenom A B C = (snd B - snd C) * (fst A - fst C) + (fst C - fst B) * (snd A - snd C)"

text \<open>The determinant of an annotation's triangle on a frame of the given size.\<close>

definition triangleDenom :: "TriangleAnnotation \<Rightarrow> real \<Rightarrow> real \<Rightarrow> real" where
  "triangleDenom tri w h =
    (let s = drawTriangleOnContext w h tri in baryDenom (stroke_p1 s) (stroke_p2 s) (stroke_p3 s))"

text \<open>
  Containment as the specification words it: the point is a combination of the three
  vertices with weights that sum to one and lie in \<open>[0, 1]\<close>. This definition follows the
  specification, not the source; it is what \<open>isPointInTriangle\<close> is compared with.
\<close>

definition insideByWeights ::
  "real \<times> real \<Rightarrow> real \<times> real \<Rightarrow> real \<times> real \<Rightarrow> real \<times> real \<Rightarrow> bool" where
  "insideByWeights P A B C =
    (\<exists>a b c. a + b + c = 1 \<and> 0 \<le> a \<and> a \<le> 1 \<and> 0 \<le> b \<and> b \<le> 1 \<and> 0 \<le> c \<and> c \<le> 1 \<and>
       a * fst A + b * fst B + c * fst C = fst P \<and>
       a * snd A + b * snd B + c * snd C = snd P)"

section \<open>Hit testing\<close>

text \<open>The \<^verbatim>\<open>for\<close> loop of \<^verbatim>\<open>findTriangleAtPosition\<close>: the first hit returns.\<close>

fun firstHit ::
  "real \<Rightarrow> real \<Rightarrow> TriangleAnnotation list \<Rightarrow> real \<Rightarrow> real \<Rightarrow> TriangleAnnotation option" where
  "firstHit x y [] videoWidth videoHeight = None"
| "firstHit x y (annotation # rest) videoWidth videoHeight =
     (if isPointInTriangle x y annotation videoWidth videoHeight = Some True then Some annotation
      else firstHit x y rest videoWidth videoHeight)"

definition findTriangleAtPosition ::
  "real \<Rightarrow> real \<Rightarrow> real \<Rightarrow> TriangleAnnotation list \<Rightarrow> real \<Rightarrow> real \<Rightarrow> TriangleAnnotation option" where
  "findTriangleAtPosition x y currentTime annotations videoWidth videoHeight =
    (let activeAnnotations =
           rev (filter (\<lambda>a. currentTime \<ge> anno_start a \<and> currentTime \<le> anno_end a) annotations)
     in firstHit x y activeAnnotations videoWidth videoHeight)"

text \<open>
  An annotation is hit at a point and time when its time range contains the time and
  \<open>isPointInTriangle\<close> reports containment: the filter and the test of
  \<open>findTriangleAtPosition\<close> together.
\<close>

definition hitAt :: "real \<Rightarrow> real \<Rightarrow> real \<Rightarrow> real \<Rightarrow> real \<Rightarrow> TriangleAnnotation \<Rightarrow> bool" where
  "hitAt x y t w h a \<longleftrightarrow>
     anno_start a \<le> t \<and> t \<le> anno_end a \<and> isPointInTriangle x y a w h = Some True"

section \<open>Tracks\<close>

text \<open>
  Decimal rendering of the integers that \<^verbatim>\<open>Math.round\<close> returns, as a template literal
  prints them.
\<close>

definition digitChar :: "nat \<Rightarrow> char" where
  "digitChar d = ''0123456789'' ! d"

fun showNat :: "nat \<Rightarrow> string" where
  "showNat n = (if n < 10 then [digitChar n] else showNat (n div 10) @ [digitChar (n mod 10)])"

declare showNat.simps [simp del]

definition showInt :: "int \<Rightarrow> string" where
  "showInt i = (if i < 0 then CHR ''-'' # showNat (nat (- i)) else showNat (nat i))"

text \<open>
  The identity key, the template
  \<^verbatim>\<open>`${Math.round(x * 100)}_${Math.round(y * 100)}_${color}`\<close>
  that \<^verbatim>\<open>createTriangleTracks\<close> and \<^verbatim>\<open>addAnnotationAt\<close> both build.
\<close>

definition triangleKey :: "real \<Rightarrow> real \<Rightarrow> string \<Rightarrow> string" where
  "triangleKey x y color =
     showInt (Math_round (x * 100)) @ ''_'' @ showInt (Math_round (y * 100)) @ ''_'' @ color"

definition triangleIdOf :: "TriangleAnnotation \<Rightarrow> string" where
  "triangleIdOf a = triangleKey (anno_x a) (anno_y a) (anno_color a)"

text \<open>\<^verbatim>\<open>TimelineAnnotation\<close> and \<^verbatim>\<open>TriangleTrack\<close> of the timeline component.\<close>

record TimelineAnnotation =
  tl_id :: string
  tl_start :: real
  tl_end :: real
  tl_color :: string
  tl_label :: "string option"

record TriangleTrack =
  track_triangleId :: string
  track_triangleLabel :: string
  track_color :: string
  track_annotations :: "TimelineAnnotation list"

text \<open>
  The \<^verbatim>\<open>Map<string, TriangleAnnotation[]>\<close> is an association list in insertion order,
  the order in which \<^verbatim>\<open>Map.forEach\<close> visits it. One iteration of the grouping loop:
  a key not yet present is set to the empty array, then the annotation is pushed to the
  key's array.
\<close>

type_synonym triangleMap = "(string \<times> TriangleAnnotation list) list"

definition mapHas :: "triangleMap \<Rightarrow> string \<Rightarrow> bool" where
  "mapHas m k = (k \<in> set (map fst m))"

definition groupStep :: "triangleMap \<Rightarrow> TriangleAnnotation \<Rightarrow> triangleMap" where
  "groupStep m annotation =
    (let triangleId = triangleIdOf annotation;
         m1 = (if \<not> mapHas m triangleId then m @ [(triangleId, [])] else m)
     in map (\<lambda>(k, g). if k = triangleId then (k, g @ [annotation]) else (k, g)) m1)"

definition toTimeline :: "TriangleAnnotation \<Rightarrow> TimelineAnnotation" where
  "toTimeline annotation =
     \<lparr> tl_id = anno_id annotation, tl_start = anno_start annotation, tl_end = anno_end annotation,
       tl_color = anno_color annotation, tl_label = anno_label annotation \<rparr>"

text \<open>
  One track. The sort is the stable \<^verbatim>\<open>Array.prototype.sort\<close> by start time. Reading
  \<^verbatim>\<open>triangleAnnotations[0].label\<close> of an empty group would raise a TypeError: \<open>None\<close>.
  \<^verbatim>\<open>label || ...\<close> falls back when the label is absent or the empty string.
\<close>

definition trackOf :: "string \<times> TriangleAnnotation list \<Rightarrow> TriangleTrack option" where
  "trackOf entry =
    (case entry of (triangleId, triangleAnnotations) \<Rightarrow>
      (case sort_key anno_start triangleAnnotations of
         [] \<Rightarrow> None
       | firstAnnotation # _ \<Rightarrow>
          Some \<lparr> track_triangleId = triangleId,
                 track_triangleLabel =
                   (case anno_label firstAnnotation of
                      Some l \<Rightarrow> if l \<noteq> [] then l
                        else ''Triangle ('' @ showInt (Math_round (anno_x firstAnnotation * 100)) @ ''%, ''
                               @ showInt (Math_round (anno_y firstAnnotation * 100)) @ ''%)''
                    | None \<Rightarrow> ''Triangle ('' @ showInt (Math_round (anno_x firstAnnotation * 100)) @ ''%, ''
                               @ showInt (Math_round (anno_y firstAnnotation * 100)) @ ''%)''),
                 track_color = anno_color firstAnnotation,
                 track_annotations =
                   map toTimeline (sort_key anno_start triangleAnnotations) \<rparr>))"

fun tracksOf :: "triangleMap \<Rightarrow> TriangleTrack list option" where
  "tracksOf [] = Some []"
| "tracksOf (entry # rest) =
     (case trackOf entry of
        None \<Rightarrow> None
      | Some track \<Rightarrow> (case tracksOf rest of None \<Rightarrow> None | Some tracks \<Rightarrow> Some (track # tracks)))"

definition createTriangleTracks :: "TriangleAnnotation list \<Rightarrow> TriangleTrack list option" where
  "createTriangleTracks annotations = tracksOf (foldl groupStep [] annotations)"

text \<open>A track by membership: its key and the set of its timeline annotations.\<close>

definition trackMembers :: "TriangleTrack \<Rightarrow> string \<times> TimelineAnnotation set" where
  "trackMembers track = (track_triangleId track, set (track_annotations track))"

section \<open>Editor state\<close>

text \<open>A toast: title, description and the optional \<^verbatim>\<open>variant\<close>.\<close>

record Toast =
  toast_title :: string
  toast_description :: string
  toast_variant :: "string option"

text \<open>
  The pixels of a captured frame are modelled by what was drawn: the position of the video
  when \<^verbatim>\<open>drawImage\<close> ran, the canvas size and the strokes burnt in, in drawing order.
\<close>

record Raster =
  raster_videoTime :: real
  raster_width :: real
  raster_height :: real
  raster_strokes :: "TriangleStroke list"

record FrameInfo =
  frame_index :: nat
  frame_time :: real
  frame_blob :: Raster
  frame_objectUrl :: string

text \<open>The fields of the \<^verbatim>\<open>HTMLVideoElement\<close> that the editor reads and writes.\<close>

record VideoElement =
  video_currentTime :: real
  video_playbackRate :: real
  video_paused :: bool
  video_videoWidth :: real
  video_videoHeight :: real

text \<open>
  The React state of \<^verbatim>\<open>VideoEditor\<close> that the modelled handlers use, with the video
  element behind \<^verbatim>\<open>videoRef\<close> (\<open>None\<close> when the ref is null) and the toasts shown so far.
\<close>

record EditorState =
  st_video :: "VideoElement option"
  st_duration :: real
  st_videoSize :: "real \<times> real"
  st_currentTime :: real
  st_isPlaying :: bool
  st_annotations :: "TriangleAnnotation list"
  st_overlayEnabled :: bool
  st_selectedId :: "string option"
  st_selection :: "(real \<times> real) option"
  st_samplingHz :: real
  st_frames :: "FrameInfo list"
  st_sampling :: bool
  st_progress :: int
  st_sequenceId :: string
  st_revokedUrls :: "string list"
  st_toasts :: "Toast list"

definition toast :: "Toast \<Rightarrow> EditorState \<Rightarrow> EditorState" where
  "toast t st = st\<lparr> st_toasts := st_toasts st @ [t] \<rparr>"

section \<open>Creating and retiming annotations\<close>

definition defaultAnnoDuration :: real where
  "defaultAnnoDuration = 3"

text \<open>
  \<^verbatim>\<open>addAnnotationAt(xNorm, yNorm)\<close>. The fresh identifier that \<^verbatim>\<open>getUUID()\<close> returns is
  the parameter \<open>uuid\<close>. \<^verbatim>\<open>duration || currentTime + defaultAnnoDuration\<close> takes the
  right operand when the duration is zero. The sum \<^verbatim>\<open>currentTime + defaultAnnoDuration\<close>
  is rounded to a double.
\<close>

definition addAnnotationAt :: "string \<Rightarrow> real \<Rightarrow> real \<Rightarrow> EditorState \<Rightarrow> EditorState" where
  "addAnnotationAt uuid xNorm yNorm st =
    (let start = st_currentTime st;
         end = clamp (fl (st_currentTime st + defaultAnnoDuration)) 0
                 (if st_duration st \<noteq> 0 then st_duration st
                  else fl (st_currentTime st + defaultAnnoDuration));
         defaultSize = 3 / 100;
         defaultColor = ''#c0c5ce'';
         defaultStrokeWidth = 5;
         x = clamp xNorm 0 1;
         y = clamp yNorm 0 1;
         triangleId = triangleKey x y defaultColor;
         existingTriangle =
           find (\<lambda>a. triangleKey (anno_x a) (anno_y a) (anno_color a) = triangleId)
             (st_annotations st)
     in case existingTriangle of
          Some existing \<Rightarrow>
            toast \<lparr> toast_title = ''Triangle already exists'',
                    toast_description =
                      ''A triangle already exists at this position. Selected existing triangle.'',
                    toast_variant = Some ''default'' \<rparr>
              (st\<lparr> st_selectedId := Some (anno_id existing) \<rparr>)
        | None \<Rightarrow>
            (let anno = \<lparr> anno_id = uuid, anno_x = x, anno_y = y, anno_size = defaultSize,
                          anno_color = defaultColor, anno_strokeWidth = defaultStrokeWidth,
                          anno_start = start, anno_end = end, anno_label = None \<rparr>
             in st\<lparr> st_annotations := st_annotations st @ [anno],
                    st_selectedId := Some (anno_id anno) \<rparr>))"

text \<open>
  \<^verbatim>\<open>updateAnnoTime(id, next)\<close>: \<^verbatim>\<open>next.start ?? a.start\<close> keeps the present bound where
  the new one is absent.
\<close>

definition retime :: "real option \<Rightarrow> real option \<Rightarrow> TriangleAnnotation \<Rightarrow> TriangleAnnotation" where
  "retime nextStart nextEnd a =
     a\<lparr> anno_start := (case nextStart of Some v \<Rightarrow> v | None \<Rightarrow> anno_start a),
        anno_end := (case nextEnd of Some v \<Rightarrow> v | None \<Rightarrow> anno_end a) \<rparr>"

definition updateAnnoTime :: "string \<Rightarrow> real option \<Rightarrow> real option \<Rightarrow> EditorState \<Rightarrow> EditorState" where
  "updateAnnoTime ident nextStart nextEnd st =
     st\<lparr> st_annotations :=
           map (\<lambda>a. if anno_id a = ident then retime nextStart nextEnd a else a)
             (st_annotations st) \<rparr>"

text \<open>\<^verbatim>\<open>onTimelineSeek(t)\<close>.\<close>

definition onTimelineSeek :: "real \<Rightarrow> EditorState \<Rightarrow> EditorState" where
  "onTimelineSeek t st =
     (case st_video st of
        None \<Rightarrow> st
      | Some video \<Rightarrow>
          st\<lparr> st_video := Some (video\<lparr> video_currentTime := clamp t 0 (st_duration st) \<rparr>) \<rparr>)"

section \<open>Timeline drag\<close>

text \<open>
  \<^verbatim>\<open>type DragState\<close> of the timeline: the pointer's x at pointer-down, and for the
  gestures on a range the bounds the range had then.
\<close>

datatype DragState =
    DragNone
  | DragSeek real
  | DragMove string real real real
  | ResizeLeft string real real real
  | ResizeRight string real real real
  | SelectRange real real
  | SelectionMove real real real
  | SelectionLeft real real real
  | SelectionRight real real real

text \<open>The bounding rectangle of the timeline's container.\<close>

record Rect =
  rect_left :: real
  rect_width :: real

text \<open>The callback of the timeline's props that a pointer move invokes.\<close>

datatype Callback =
    OnSeek real
  | OnSelectionChange "real \<times> real"
  | OnChangeTime string "real option" "real option"

text \<open>
  \<^verbatim>\<open>xToTime\<close>: the subtraction, the division and the product are each rounded to a
  double.
\<close>

definition xToTime :: "real \<Rightarrow> Rect \<Rightarrow> real \<Rightarrow> real" where
  "xToTime clientX rect duration =
    (let ratio = fl (fl (clientX - rect_left rect) / max 1 (rect_width rect))
     in clamp (fl (ratio * duration)) 0 duration)"

text \<open>
  \<^verbatim>\<open>dt\<close> of \<^verbatim>\<open>onScrubPointerMove\<close>. The source computes it before it dispatches on the
  gesture; for the idle state, which has no \<^verbatim>\<open>startX\<close>, it is NaN and no branch reads it.
\<close>

definition dragDelta :: "real \<Rightarrow> real \<Rightarrow> Rect \<Rightarrow> real \<Rightarrow> real" where
  "dragDelta clientX startX rect duration =
     fl (fl (fl (clientX - startX) / max 1 (rect_width rect)) * duration)"

text \<open>
  \<^verbatim>\<open>onScrubPointerMove\<close>, with the props \<open>duration\<close>, \<open>selection\<close> and \<open>minClipLen\<close>, the
  container's rectangle (\<open>None\<close> when the ref is null) and the event's \<open>clientX\<close>. The
  result is the callback invoked, if any. The selection is a pair (start, end). Every
  sum and difference is rounded to a double: the limits \<^verbatim>\<open>origEnd - minClipLen\<close> and
  \<^verbatim>\<open>origStart + minClipLen\<close> that the clamps get are the rounded ones.
\<close>

fun onScrubPointerMove ::
  "real \<Rightarrow> (real \<times> real) option \<Rightarrow> real \<Rightarrow> Rect option \<Rightarrow> DragState \<Rightarrow> real \<Rightarrow> Callback option" where
  "onScrubPointerMove duration selection minClipLen None drag clientX = None"
| "onScrubPointerMove duration selection minClipLen (Some rect) DragNone clientX = None"
| "onScrubPointerMove duration selection minClipLen (Some rect) (DragSeek startX) clientX =
     Some (OnSeek (xToTime clientX rect duration))"
| "onScrubPointerMove duration selection minClipLen (Some rect) (SelectRange startX anchorTime) clientX =
     (let t = xToTime clientX rect duration;
          s = min anchorTime t;
          en = max anchorTime t
      in Some (OnSelectionChange (s, en)))"
| "onScrubPointerMove duration selection minClipLen (Some rect) (DragMove ident startX origStart origEnd) clientX =
     (let dt = dragDelta clientX startX rect duration;
          len = fl (origEnd - origStart);
          newStart = clamp (fl (origStart + dt)) 0 (max 0 (fl (duration - len)));
          newEnd = fl (newStart + len)
      in Some (OnChangeTime ident (Some newStart) (Some newEnd)))"
| "onScrubPointerMove duration selection minClipLen (Some rect) (ResizeLeft ident startX origStart origEnd) clientX =
     (let dt = dragDelta clientX startX rect duration;
          newStart = clamp (fl (origStart + dt)) 0 (fl (origEnd - minClipLen))
      in Some (OnChangeTime ident (Some newStart) None))"
| "onScrubPointerMove duration selection minClipLen (Some rect) (ResizeRight ident startX origStart origEnd) clientX =
     (let dt = dragDelta clientX startX rect duration;
          newEnd = clamp (fl (origEnd + dt)) (fl (origStart + minClipLen)) duration
      in Some (OnChangeTime ident None (Some newEnd)))"
| "onScrubPointerMove duration selection minClipLen (Some rect) (SelectionMove startX origStart origEnd) clientX =
     (case selection of
        None \<Rightarrow> None
      | Some sel \<Rightarrow>
         (let dt = dragDelta clientX startX rect duration;
              len = fl (origEnd - origStart);
              newStart = clamp (fl (origStart + dt)) 0 (max 0 (fl (duration - len)));
              newEnd = fl (newStart + len)
          in Some (OnSelectionChange (newStart, newEnd))))"
| "onScrubPointerMove duration selection minClipLen (Some rect) (SelectionLeft startX origStart origEnd) clientX =
     (case selection of
        None \<Rightarrow> None
      | Some sel \<Rightarrow>
         (let dt = dragDelta clientX startX rect duration;
              newStart = clamp (fl (origStart + dt)) 0 (fl (origEnd - minClipLen))
          in Some (OnSelectionChange (newStart, snd sel))))"
| "onScrubPointerMove duration selection minClipLen (Some rect) (SelectionRight startX origStart origEnd) clientX =
     (case selection of
        None \<Rightarrow> None
      | Some sel \<Rightarrow>
         (let dt = dragDelta clientX startX rect duration;
              newEnd = clamp (fl (origEnd + dt)) (fl (origStart + minClipLen)) duration
          in Some (OnSelectionChange (fst sel, newEnd))))"

text \<open>
  The editor's wiring of the callbacks: \<^verbatim>\<open>onSeek={onTimelineSeek}\<close>,
  \<^verbatim>\<open>onChangeTime={updateAnnoTime}\<close>, \<^verbatim>\<open>onSelectionChange={setSelection}\<close>.
\<close>

fun applyCallback :: "Callback option \<Rightarrow> EditorState \<Rightarrow> EditorState" where
  "applyCallback None st = st"
| "applyCallback (Some (OnSeek t)) st = onTimelineSeek t st"
| "applyCallback (Some (OnSelectionChange sel)) st = st\<lparr> st_selection := Some sel \<rparr>"
| "applyCallback (Some (OnChangeTime ident nextStart nextEnd)) st =
     updateAnnoTime ident nextStart nextEnd st"

text \<open>
  One pointer-move event as the editor sees it: the timeline gets the editor's duration
  and selection, and its callback runs on the editor's state. \<open>minClipLen\<close> is the
  timeline's prop; the editor leaves it at the default \<^verbatim>\<open>0.1\<close>.
\<close>

definition defaultMinClipLen :: real where
  "defaultMinClipLen = tenth"

definition pointerMove :: "real \<Rightarrow> Rect option \<Rightarrow> DragState \<Rightarrow> real \<Rightarrow> EditorState \<Rightarrow> EditorState" where
  "pointerMove minClipLen container drag clientX st =
     applyCallback
       (onScrubPointerMove (st_duration st) (st_selection st) minClipLen container drag clientX)
       st"

text \<open>
  The pointer moves of one gesture. The drag state is set at pointer-down and stays as it
  is until pointer-up; every move event brings the rectangle the container has at that
  moment and the pointer's \<open>clientX\<close>. The container is there while the timeline is
  mounted; a move without it changes nothing and is left out of the list.
\<close>

definition gesture :: "real \<Rightarrow> DragState \<Rightarrow> (Rect \<times> real) list \<Rightarrow> EditorState \<Rightarrow> EditorState" where
  "gesture minClipLen drag events st =
     foldl (\<lambda>s (rect, clientX). pointerMove minClipLen (Some rect) drag clientX s) st events"

section \<open>Sampling\<close>




text \<open>
  The same loop and the same list over exact arithmetic, where the loop exits for every
  rate. The model of a whole run below takes its timestamps from this loop: what is
  proved of a whole run concerns the steps that follow the loop and holds of any list
  of timestamps. At an input where the loop in doubles does not exit, the run of the
  source does not reach these steps.
\<close>

partial_function (option) timesLoopExact :: "real \<Rightarrow> real \<Rightarrow> real \<Rightarrow> real list \<Rightarrow> real list option" where
  "timesLoopExact t end step tms =
     (if t \<le> end + 1 / 10 ^ 6 then timesLoopExact (t + step) end step (tms @ [min t end])
      else Some tms)"

definition sampleTimesExact :: "real \<times> real \<Rightarrow> real \<Rightarrow> real \<Rightarrow> real list option" where
  "sampleTimesExact selection duration samplingHz =
    (let start = clamp (fst selection) 0 duration;
         end = clamp (snd selection) 0 duration;
         hz = max (1 / 10) samplingHz;
         step = 1 / hz
     in timesLoopExact start end step [])"

text \<open>
  What the run gets from the browser: whether \<^verbatim>\<open>getContext("2d")\<close> returns a context,
  whether the i-th seek settles (otherwise its promise rejects, the error is logged and
  the run goes on), the object URL of the i-th blob, whether \<^verbatim>\<open>video.play()\<close> resolves,
  and \<^verbatim>\<open>Number.prototype.toFixed(2)\<close>.
\<close>

record SamplingEnv =
  env_ctxAvailable :: bool
  env_seekSettles :: "nat \<Rightarrow> bool"
  env_objectUrl :: "nat \<Rightarrow> string"
  env_playResolves :: bool
  env_toFixed2 :: "real \<Rightarrow> string"

text \<open>
  The capture loop over \<^verbatim>\<open>times\<close>, from index \<open>i\<close>, threading the video element, the
  frames captured so far and the progress value. \<open>n\<close> is \<^verbatim>\<open>times.length\<close>.
\<close>

fun captureLoop ::
  "SamplingEnv \<Rightarrow> TriangleAnnotation list \<Rightarrow> bool \<Rightarrow> real \<Rightarrow> real \<Rightarrow> nat \<Rightarrow> nat \<Rightarrow> real list \<Rightarrow>
   VideoElement \<times> FrameInfo list \<times> int \<Rightarrow> VideoElement \<times> FrameInfo list \<times> int" where
  "captureLoop env annotations burn cw ch n i [] acc = acc"
| "captureLoop env annotations burn cw ch n i (targetTime # rest) (video, newFrames, progress) =
    (let video1 = (if env_seekSettles env i then video\<lparr> video_currentTime := targetTime \<rparr> else video);
         active = filter (\<lambda>a. targetTime \<ge> anno_start a \<and> targetTime \<le> anno_end a) annotations;
         strokes = (if burn then map (drawTriangleOnContext cw ch) active else []);
         blob = \<lparr> raster_videoTime = video_currentTime video1, raster_width = cw,
                  raster_height = ch, raster_strokes = strokes \<rparr>;
         frame = \<lparr> frame_index = i, frame_time = targetTime, frame_blob = blob,
                   frame_objectUrl = env_objectUrl env i \<rparr>
     in captureLoop env annotations burn cw ch n (i + 1) rest
          (video1, newFrames @ [frame], Math_round ((real (i + 1) / real n) * 100)))"

definition noVideoToast :: Toast where
  "noVideoToast = \<lparr> toast_title = ''No video loaded'',
     toast_description = ''Load a video before sampling.'', toast_variant = Some ''destructive'' \<rparr>"

definition noSelectionToast :: Toast where
  "noSelectionToast = \<lparr> toast_title = ''No selection'',
     toast_description = ''Use Select export region to choose a time range.'',
     toast_variant = Some ''destructive'' \<rparr>"

definition canvasErrorToast :: Toast where
  "canvasErrorToast = \<lparr> toast_title = ''Canvas error'',
     toast_description = ''Cannot create drawing context.'', toast_variant = Some ''destructive'' \<rparr>"

definition completeToast :: "SamplingEnv \<Rightarrow> nat \<Rightarrow> real \<Rightarrow> string \<Rightarrow> Toast" where
  "completeToast env len hz sequenceId = \<lparr> toast_title = ''Sampling complete'',
     toast_description = showNat len @ '' frame'' @ (if len = 1 then [] else ''s'')
       @ '' captured at '' @ env_toFixed2 env hz @ '' Hz. Sequence: sequence_'' @ sequenceId,
     toast_variant = None \<rparr>"

text \<open>
  \<^verbatim>\<open>sampleSelection\<close>, with the timestamps of the loop over exact arithmetic. \<open>None\<close>
  is a run whose timestamp loop never exits. The always-true \<^verbatim>\<open>burnInAnnotation\<close> is
  left out of the burn-in condition.
\<close>

definition sampleSelection :: "SamplingEnv \<Rightarrow> EditorState \<Rightarrow> EditorState option" where
  "sampleSelection env st =
    (case st_video st of
       None \<Rightarrow> Some (toast noVideoToast st)
     | Some video \<Rightarrow>
        if fst (st_videoSize st) = 0 \<or> st_duration st = 0 then Some (toast noVideoToast st)
        else
          (case st_selection st of
             None \<Rightarrow> Some (toast noSelectionToast st)
           | Some selection \<Rightarrow>
              if snd selection \<le> fst selection then Some (toast noSelectionToast st)
              else
                (case sampleTimesExact selection (st_duration st) (st_samplingHz st) of
                   None \<Rightarrow> None
                 | Some tms \<Rightarrow>
                    (let hz = max (1 / 10) (st_samplingHz st);
                         st1 = st\<lparr> st_sampling := True, st_progress := 0,
                                  st_revokedUrls := st_revokedUrls st @ map frame_objectUrl (st_frames st),
                                  st_frames := [] \<rparr>;
                         previousRate = video_playbackRate video;
                         wasPlaying = (\<not> video_paused video);
                         video1 = video\<lparr> video_paused := True, video_playbackRate := 1 \<rparr>;
                         cw = (if video_videoWidth video \<noteq> 0 then video_videoWidth video else 1280);
                         ch = (if video_videoHeight video \<noteq> 0 then video_videoHeight video else 720)
                     in if \<not> env_ctxAvailable env
                        then Some ((toast canvasErrorToast (st1\<lparr> st_video := Some video1 \<rparr>))
                                     \<lparr> st_sampling := False \<rparr>)
                        else
                          (case captureLoop env (st_annotations st) (st_overlayEnabled st) cw ch
                                  (length tms) 0 tms (video1, [], 0) of
                             (video2, newFrames, progress) \<Rightarrow>
                               (let st2 = st1\<lparr> st_progress := progress, st_frames := newFrames,
                                               st_sampling := False,
                                               st_video := Some (video2\<lparr> video_playbackRate := previousRate \<rparr>) \<rparr>;
                                    st3 = (if wasPlaying
                                           then (if env_playResolves env
                                                 then st2\<lparr> st_video :=
                                                          Some (video2\<lparr> video_playbackRate := previousRate,
                                                                        video_paused := False \<rparr>),
                                                        st_isPlaying := True \<rparr>
                                                 else st2\<lparr> st_isPlaying := False \<rparr>)
                                           else st2)
                                in Some (toast (completeToast env (length newFrames) hz (st_sequenceId st))
                                          st3)))))))"

section \<open>Example inputs\<close>

text \<open>Two annotations centred on the same point, the newer one smaller and starting later.\<close>

definition olderTriangle :: TriangleAnnotation where
  "olderTriangle = \<lparr> anno_id = ''older'', anno_x = 1 / 2, anno_y = 1 / 2, anno_size = 1 / 2,
     anno_color = ''#c0c5ce'', anno_strokeWidth = 5, anno_start = 0, anno_end = 3, anno_label = None \<rparr>"

definition newerTriangle :: TriangleAnnotation where
  "newerTriangle = \<lparr> anno_id = ''newer'', anno_x = 1 / 2, anno_y = 1 / 2, anno_size = 1 / 4,
     anno_color = ''#ff0000'', anno_strokeWidth = 5, anno_start = 1, anno_end = 4, anno_label = None \<rparr>"

text \<open>
  An editor state: a 10 second video of 100 by 100 pixels playing at double rate with the
  playhead at 2 seconds, the two example annotations, the selection [0, 2.5], a rate of
  1 Hz and one frame left from an earlier run.
\<close>

definition exampleFrame :: FrameInfo where
  "exampleFrame = \<lparr> frame_index = 0, frame_time = 0,
     frame_blob = \<lparr> raster_videoTime = 0, raster_width = 100, raster_height = 100,
                     raster_strokes = [] \<rparr>,
     frame_objectUrl = ''blob:earlier'' \<rparr>"

definition exampleVideo :: VideoElement where
  "exampleVideo = \<lparr> video_currentTime = 2, video_playbackRate = 2, video_paused = False,
     video_videoWidth = 100, video_videoHeight = 100 \<rparr>"

definition exampleState :: EditorState where
  "exampleState = \<lparr> st_video = Some exampleVideo, st_duration = 10, st_videoSize = (100, 100),
     st_currentTime = 2, st_isPlaying = True, st_annotations = [olderTriangle, newerTriangle],
     st_overlayEnabled = True, st_selectedId = None, st_selection = Some (0, 5 / 2),
     st_samplingHz = 1, st_frames = [exampleFrame], st_sampling = False, st_progress = 100,
     st_sequenceId = ''seq'', st_revokedUrls = [], st_toasts = [] \<rparr>"

text \<open>A timeline container 256 pixels wide at the left edge of the page.\<close>

definition exampleRect :: Rect where
  "exampleRect = \<lparr> rect_left = 0, rect_width = 256 \<rparr>"

text \<open>
  Two browsers: in both every seek settles and \<^verbatim>\<open>play()\<close> resolves; the second one
  hands out no 2D context.
\<close>

definition exampleEnv :: SamplingEnv where
  "exampleEnv = \<lparr> env_ctxAvailable = True, env_seekSettles = (\<lambda>i. True),
     env_objectUrl = (\<lambda>i. ''blob:'' @ showNat i), env_playResolves = True,
     env_toFixed2 = (\<lambda>hz. ''1.00'') \<rparr>"

definition noContextEnv :: SamplingEnv where
  "noContextEnv = exampleEnv\<lparr> env_ctxAvailable := False \<rparr>"

section \<open>Rounding: proofs\<close>

text \<open>Powers of two.\<close>

lemma pow2_powr: "pow2 e = 2 powr (of_int e)"
  by (simp add: pow2_def powr_int)

lemma pow2_pos [simp]: "0 < pow2 e"
  by (simp add: pow2_def)

lemma pow2_nonzero [simp]: "pow2 e \<noteq> 0"
  using pow2_pos[of e] by linarith

lemma pow2_nonneg [simp]: "0 \<le> pow2 e"
  using pow2_pos[of e] by linarith

lemma pow2_add: "pow2 (a + b) = pow2 a * pow2 b"
  by (simp add: pow2_powr powr_add)

lemma pow2_mono: "a \<le> b \<Longrightarrow> pow2 a \<le> pow2 b"
  by (simp add: pow2_powr)

lemma pow2_nat: "0 \<le> e \<Longrightarrow> pow2 e = of_int (2 ^ nat e)"
  by (simp add: pow2_def)

lemma roundEven_error: "\<bar>of_int (roundEven r) - r\<bar> \<le> 1 / 2"
  unfolding roundEven_def Let_def by (auto; linarith)

lemma roundEven_of_int [simp]: "roundEven (of_int j) = j"
  by (simp add: roundEven_def)

lemma ulp_pos [simp]: "0 < ulp x"
  by (simp add: ulp_def)

lemma ulp_nonzero [simp]: "ulp x \<noteq> 0"
  using ulp_pos[of x] by linarith

lemma ulp_nonneg [simp]: "0 \<le> ulp x"
  using ulp_pos[of x] by linarith

lemma fl_error: "\<bar>fl x - x\<bar> \<le> ulp x / 2"
proof (cases "x = 0")
  case True
  then show ?thesis by (simp add: fl_def less_imp_le)
next
  case False
  have "fl x - x = (of_int (roundEven (x / ulp x)) - x / ulp x) * ulp x"
    using False by (simp add: fl_def algebra_simps)
  then have "\<bar>fl x - x\<bar> = \<bar>of_int (roundEven (x / ulp x)) - x / ulp x\<bar> * ulp x"
    using ulp_pos[of x] by (simp add: abs_mult less_imp_le)
  also have "\<dots> \<le> (1 / 2) * ulp x"
    by (intro mult_right_mono roundEven_error) simp
  finally show ?thesis by simp
qed

lemma expo_normal:
  assumes "pow2 (- 1022) \<le> \<bar>x\<bar>"
  shows "pow2 (expo x) \<le> \<bar>x\<bar>"
proof -
  have pos: "0 < \<bar>x\<bar>" using assms pow2_pos[of "- 1022"] by linarith
  have "2 powr (of_int (- 1022)) \<le> \<bar>x\<bar>" using assms by (simp add: pow2_powr)
  then have "of_int (- 1022) \<le> log 2 \<bar>x\<bar>" using pos by (simp add: le_log_iff)
  then have "- 1022 \<le> \<lfloor>log 2 \<bar>x\<bar>\<rfloor>" by (simp add: le_floor_iff)
  then have e: "expo x = \<lfloor>log 2 \<bar>x\<bar>\<rfloor>" using pos by (simp add: expo_def)
  have "of_int \<lfloor>log 2 \<bar>x\<bar>\<rfloor> \<le> log 2 \<bar>x\<bar>" by simp
  then have "2 powr (of_int \<lfloor>log 2 \<bar>x\<bar>\<rfloor>) \<le> \<bar>x\<bar>" using pos by (simp add: powr_le_iff)
  then show ?thesis by (simp add: e pow2_powr)
qed

lemma ulp_small: "\<bar>x\<bar> < pow2 (- 1022) \<Longrightarrow> ulp x = pow2 (- 1074)"
proof (cases "x = 0")
  case True
  then show ?thesis by (simp add: ulp_def expo_def)
next
  case False
  assume a: "\<bar>x\<bar> < pow2 (- 1022)"
  from False have pos: "0 < \<bar>x\<bar>" by simp
  have "\<bar>x\<bar> < 2 powr (of_int (- 1022))" using a by (simp add: pow2_powr)
  then have "log 2 \<bar>x\<bar> < of_int (- 1022)" using pos by (simp add: log_less_iff)
  then have "\<lfloor>log 2 \<bar>x\<bar>\<rfloor> \<le> - 1022" by linarith
  then have "expo x = - 1022" by (simp add: expo_def)
  then show ?thesis by (simp add: ulp_def)
qed

lemma ulp_bound: "ulp x \<le> \<bar>x\<bar> / 2 ^ 52 + pow2 (- 1074)"
proof (cases "pow2 (- 1022) \<le> \<bar>x\<bar>")
  case True
  have "ulp x = pow2 (expo x) * pow2 (- 52)" unfolding ulp_def by (simp add: pow2_add[symmetric])
  also have "\<dots> \<le> \<bar>x\<bar> * pow2 (- 52)"
    by (intro mult_right_mono expo_normal[OF True]) (simp add: less_imp_le)
  also have "\<dots> = \<bar>x\<bar> / 2 ^ 52" by (simp add: pow2_def)
  finally show ?thesis using pow2_pos[of "- 1074"] by linarith
next
  case False
  then have "ulp x = pow2 (- 1074)" by (simp add: ulp_small)
  then show ?thesis by simp
qed

lemma pow2_tiny: "pow2 (- 1074) \<le> 1 / 2 ^ 99"
proof -
  have "pow2 (- 1074) \<le> pow2 (- 99)" by (rule pow2_mono) simp
  then show ?thesis by (simp add: pow2_def)
qed

lemma fl_error_bound: "\<bar>fl x - x\<bar> \<le> \<bar>x\<bar> / 2 ^ 53 + 1 / 2 ^ 100"
proof -
  have "\<bar>fl x - x\<bar> \<le> ulp x / 2" by (rule fl_error)
  also have "\<dots> \<le> (\<bar>x\<bar> / 2 ^ 52 + 1 / 2 ^ 99) / 2"
    using ulp_bound[of x] pow2_tiny by simp
  also have "\<dots> = \<bar>x\<bar> / 2 ^ 53 + 1 / 2 ^ 100" by simp
  finally show ?thesis .
qed

lemma pow2_less_iff: "pow2 a < pow2 b \<longleftrightarrow> a < b"
  by (simp add: pow2_powr)

lemma pow2_le_iff: "pow2 a \<le> pow2 b \<longleftrightarrow> a \<le> b"
  by (simp add: pow2_powr)

lemma pow2_diff: "pow2 a / pow2 b = pow2 (a - b)"
  by (simp add: pow2_powr powr_diff)

lemma expo_eq:
  assumes "pow2 e \<le> \<bar>x\<bar>" "\<bar>x\<bar> < pow2 (e + 1)" "- 1022 \<le> e"
  shows "expo x = e"
proof -
  have pos: "0 < \<bar>x\<bar>" using assms(1) pow2_pos[of e] by linarith
  then have x0: "x \<noteq> 0" by auto
  have "2 powr (of_int e) \<le> \<bar>x\<bar> \<and> \<bar>x\<bar> < 2 powr (of_int e + 1)"
    using assms(1,2) by (simp add: pow2_powr)
  then have "\<lfloor>log 2 \<bar>x\<bar>\<rfloor> = e"
    using pos floor_log_eq_powr_iff[of "\<bar>x\<bar>" 2 e] by simp
  then show ?thesis using x0 assms(3) by (simp add: expo_def)
qed

lemma fl_at:
  assumes "pow2 e \<le> \<bar>x\<bar>" "\<bar>x\<bar> < pow2 (e + 1)" "- 1022 \<le> e"
  shows "fl x = of_int (roundEven (x / pow2 (e - 52))) * pow2 (e - 52)"
proof -
  have "0 < \<bar>x\<bar>" using assms(1) pow2_pos[of e] by linarith
  then have "x \<noteq> 0" by auto
  then show ?thesis by (simp add: fl_def ulp_def expo_eq[OF assms])
qed

lemma expo_upper:
  assumes "\<bar>x\<bar> < pow2 (k + 53)" "- 1074 \<le> k"
  shows "expo x - 52 \<le> k"
proof (cases "pow2 (- 1022) \<le> \<bar>x\<bar>")
  case True
  from expo_normal[OF True] assms(1) have "pow2 (expo x) < pow2 (k + 53)" by linarith
  then have "expo x < k + 53" by (simp add: pow2_less_iff)
  then show ?thesis by simp
next
  case False
  then have "expo x = - 1022"
  proof (cases "x = 0")
    case True
    then show ?thesis by (simp add: expo_def)
  next
    case nz: False
    then have pos: "0 < \<bar>x\<bar>" by simp
    have "\<bar>x\<bar> < 2 powr (of_int (- 1022))" using False by (simp add: pow2_powr)
    then have "log 2 \<bar>x\<bar> < of_int (- 1022)" using pos by (simp add: log_less_iff)
    then have "\<lfloor>log 2 \<bar>x\<bar>\<rfloor> \<le> - 1022" by linarith
    then show ?thesis using nz by (simp add: expo_def)
  qed
  then show ?thesis using assms(2) by simp
qed

text \<open>A significand below \<open>2^53\<close> at an exponent of at least \<open>-1074\<close> is a double.\<close>

lemma fl_exact:
  assumes m: "\<bar>m\<bar> < 2 ^ 53" and k: "- 1074 \<le> k"
  shows "fl (of_int m * pow2 k) = of_int m * pow2 k"
proof (cases "m = 0")
  case True
  then show ?thesis by (simp add: fl_def)
next
  case False
  define x where "x = of_int m * pow2 k"
  have x0: "x \<noteq> 0" using False by (simp add: x_def)
  have "\<bar>x\<bar> = of_int \<bar>m\<bar> * pow2 k" by (simp add: x_def abs_mult)
  also have "\<dots> < of_int (2 ^ 53) * pow2 k"
    using m by (intro mult_strict_right_mono) (simp_all del: of_int_power of_int_numeral)
  also have "\<dots> = pow2 (k + 53)"
  proof -
    have p: "(of_int (2 ^ 53) :: real) = pow2 53" by (simp add: pow2_def)
    show ?thesis unfolding p pow2_add[symmetric] by (simp add: add.commute)
  qed
  finally have "\<bar>x\<bar> < pow2 (k + 53)" .
  from expo_upper[OF this k] have d: "0 \<le> k - (expo x - 52)" by simp
  have "x / ulp x = of_int m * (pow2 k / pow2 (expo x - 52))"
    by (simp add: x_def ulp_def)
  also have "\<dots> = of_int m * pow2 (k - (expo x - 52))" by (simp add: pow2_diff)
  also have "\<dots> = of_int (m * 2 ^ nat (k - (expo x - 52)))"
    using d by (simp add: pow2_nat)
  finally have q: "x / ulp x = of_int (m * 2 ^ nat (k - (expo x - 52)))" .
  have "fl x = of_int (roundEven (x / ulp x)) * ulp x" using x0 by (simp add: fl_def)
  also have "\<dots> = (x / ulp x) * ulp x" unfolding q roundEven_of_int ..
  also have "\<dots> = x" by simp
  finally show ?thesis by (simp add: x_def)
qed

lemma fl_of_int: "\<bar>m\<bar> < 2 ^ 53 \<Longrightarrow> fl (of_int m) = of_int m"
  using fl_exact[of m 0] by (simp add: pow2_def)

lemma fl_dyadic: "\<bar>m\<bar> < 2 ^ 53 \<Longrightarrow> n \<le> 1074 \<Longrightarrow> fl (of_int m / 2 ^ n) = of_int m / 2 ^ n"
  using fl_exact[of m "- int n"] by (cases "n = 0") (simp_all add: pow2_def)

lemma fl_0 [simp]: "fl 0 = 0"
  by (simp add: fl_def)

lemma fl_numeral [simp]: "numeral w < (2 :: int) ^ 53 \<Longrightarrow> fl (numeral w) = numeral w"
  using fl_of_int[of "numeral w"] by simp

lemma fl_1 [simp]: "fl 1 = 1"
  using fl_of_int[of 1] by simp

lemma fl_numeral_half [simp]: "numeral w < (2 :: int) ^ 53 \<Longrightarrow> fl (numeral w / 2) = numeral w / 2"
  using fl_dyadic[of "numeral w" 1] by simp

lemma fl_half [simp]: "fl (1 / 2) = 1 / 2"
  using fl_dyadic[of 1 1] by simp

lemma roundEven_eval:
  "roundEven r = (if r - of_int \<lfloor>r\<rfloor> < 1 / 2 then \<lfloor>r\<rfloor>
                  else if 1 / 2 < r - of_int \<lfloor>r\<rfloor> then \<lfloor>r\<rfloor> + 1
                  else if even \<lfloor>r\<rfloor> then \<lfloor>r\<rfloor> else \<lfloor>r\<rfloor> + 1)"
  by (simp add: roundEven_def Let_def)

text \<open>The double \<^verbatim>\<open>0.1\<close> is a little above one tenth.\<close>

lemma tenth_val: "fl (1 / 10) = 3602879701896397 / 2 ^ 55"
proof -
  have "fl (1 / 10) = of_int (roundEven ((1 / 10) / pow2 (- 4 - 52))) * pow2 (- 4 - 52)"
    by (rule fl_at) (simp_all add: pow2_def)
  also have "\<dots> = 3602879701896397 / 2 ^ 55"
    by (simp add: pow2_def roundEven_eval)
  finally show ?thesis .
qed

lemma tenth_eq: "tenth = 3602879701896397 / 2 ^ 55"
  unfolding tenth_def by (rule tenth_val)

lemma tenth_bounds: "9 / 100 \<le> tenth" "tenth \<le> 11 / 100"
  by (simp_all add: tenth_eq)






section \<open>Geometry: proofs\<close>

lemma bary_solution:
  fixes ax ay bx "by" cx cy px py :: real
  defines "d \<equiv> (by - cy) * (ax - cx) + (cx - bx) * (ay - cy)"
  defines "nA \<equiv> (by - cy) * (px - cx) + (cx - bx) * (py - cy)"
  defines "nB \<equiv> (cy - ay) * (px - cx) + (ax - cx) * (py - cy)"
  assumes d0: "d \<noteq> 0"
  shows "nA / d * ax + nB / d * bx + (1 - nA / d - nB / d) * cx = px"
    and "nA / d * ay + nB / d * by + (1 - nA / d - nB / d) * cy = py"
proof -
  have x: "nA * ax + nB * bx + (d - nA - nB) * cx = d * px"
    unfolding nA_def nB_def d_def by (simp add: algebra_simps)
  have y: "nA * ay + nB * by + (d - nA - nB) * cy = d * py"
    unfolding nA_def nB_def d_def by (simp add: algebra_simps)
  have "nA / d * ax + nB / d * bx + (1 - nA / d - nB / d) * cx
        = (nA * ax + nB * bx + (d - nA - nB) * cx) / d"
    using d0 by (simp add: field_simps)
  then show "nA / d * ax + nB / d * bx + (1 - nA / d - nB / d) * cx = px"
    using d0 by (simp add: x)
  have "nA / d * ay + nB / d * by + (1 - nA / d - nB / d) * cy
        = (nA * ay + nB * by + (d - nA - nB) * cy) / d"
    using d0 by (simp add: field_simps)
  then show "nA / d * ay + nB / d * by + (1 - nA / d - nB / d) * cy = py"
    using d0 by (simp add: y)
qed

lemma bary_unique:
  fixes ax ay bx "by" cx cy px py a b c :: real
  defines "d \<equiv> (by - cy) * (ax - cx) + (cx - bx) * (ay - cy)"
  assumes d0: "d \<noteq> 0" and s: "a + b + c = 1"
    and ex: "a * ax + b * bx + c * cx = px" and ey: "a * ay + b * by + c * cy = py"
  shows "a = ((by - cy) * (px - cx) + (cx - bx) * (py - cy)) / d"
    and "b = ((cy - ay) * (px - cx) + (ax - cx) * (py - cy)) / d"
proof -
  have c: "c = 1 - a - b" using s by simp
  have "(by - cy) * (px - cx) + (cx - bx) * (py - cy) = a * d"
    unfolding d_def ex[symmetric] ey[symmetric] c by (simp add: algebra_simps)
  then show "a = ((by - cy) * (px - cx) + (cx - bx) * (py - cy)) / d" using d0 by simp
  have "(cy - ay) * (px - cx) + (ax - cx) * (py - cy) = b * d"
    unfolding d_def ex[symmetric] ey[symmetric] c by (simp add: algebra_simps)
  then show "b = ((cy - ay) * (px - cx) + (ax - cx) * (py - cy)) / d" using d0 by simp
qed

lemma bary_iff:
  fixes ax ay bx "by" cx cy px py :: real
  defines "d \<equiv> (by - cy) * (ax - cx) + (cx - bx) * (ay - cy)"
  defines "nA \<equiv> (by - cy) * (px - cx) + (cx - bx) * (py - cy)"
  defines "nB \<equiv> (cy - ay) * (px - cx) + (ax - cx) * (py - cy)"
  assumes d0: "d \<noteq> 0"
  shows "(nA / d \<ge> 0 \<and> nB / d \<ge> 0 \<and> 1 - nA / d - nB / d \<ge> 0)
         \<longleftrightarrow> insideByWeights (px, py) (ax, ay) (bx, by) (cx, cy)"
proof
  assume nn: "nA / d \<ge> 0 \<and> nB / d \<ge> 0 \<and> 1 - nA / d - nB / d \<ge> 0"
  have sol: "nA / d * ax + nB / d * bx + (1 - nA / d - nB / d) * cx = px"
            "nA / d * ay + nB / d * by + (1 - nA / d - nB / d) * cy = py"
    using bary_solution[of "by" cy ax cx bx ay px py] d0
    unfolding d_def nA_def nB_def by blast+
  show "insideByWeights (px, py) (ax, ay) (bx, by) (cx, cy)"
    unfolding insideByWeights_def fst_conv snd_conv
  proof (intro exI conjI)
    show "nA / d + nB / d + (1 - nA / d - nB / d) = 1" by simp
    show "nA / d * ax + nB / d * bx + (1 - nA / d - nB / d) * cx = px" by (rule sol(1))
    show "nA / d * ay + nB / d * by + (1 - nA / d - nB / d) * cy = py" by (rule sol(2))
  qed (use nn in linarith)+
next
  assume "insideByWeights (px, py) (ax, ay) (bx, by) (cx, cy)"
  then obtain a b c where s: "a + b + c = 1" and r: "0 \<le> a" "0 \<le> b" "0 \<le> c"
    and ex: "a * ax + b * bx + c * cx = px" and ey: "a * ay + b * by + c * cy = py"
    unfolding insideByWeights_def fst_conv snd_conv by blast
  have "a = nA / d" "b = nB / d"
    using bary_unique[of "by" cy ax cx bx ay a b c px py] d0 s ex ey
    unfolding d_def nA_def nB_def by blast+
  then show "nA / d \<ge> 0 \<and> nB / d \<ge> 0 \<and> 1 - nA / d - nB / d \<ge> 0"
    using r s by (metis add_diff_cancel_left' diff_diff_eq)
qed

text \<open>
  What \<open>isPointInTriangle\<close> computes, with the vertices named: the early return, then the
  two checked divisions.
\<close>

lemma isPointInTriangle_code:
  fixes px py w h :: real and tri :: TriangleAnnotation
  defines "ax \<equiv> fst (stroke_p1 (drawTriangleOnContext w h tri))"
  defines "ay \<equiv> snd (stroke_p1 (drawTriangleOnContext w h tri))"
  defines "bx \<equiv> fst (stroke_p2 (drawTriangleOnContext w h tri))"
  defines "by \<equiv> snd (stroke_p2 (drawTriangleOnContext w h tri))"
  defines "cx \<equiv> fst (stroke_p3 (drawTriangleOnContext w h tri))"
  defines "cy \<equiv> snd (stroke_p3 (drawTriangleOnContext w h tri))"
  defines "d \<equiv> triangleDenom tri w h"
  shows "isPointInTriangle px py tri w h =
      (if \<bar>d\<bar> < 1 / 10 ^ 10 then Some False
       else (case js_div ((by - cy) * (px * w - cx) + (cx - bx) * (py * h - cy)) d of
               None \<Rightarrow> None
             | Some a \<Rightarrow>
                (case js_div ((cy - ay) * (px * w - cx) + (ax - cx) * (py * h - cy)) d of
                   None \<Rightarrow> None
                 | Some b \<Rightarrow> Some (a \<ge> 0 \<and> b \<ge> 0 \<and> 1 - a - b \<ge> 0))))"
  unfolding isPointInTriangle_def triangleDenom_def baryDenom_def drawTriangleOnContext_def
    Let_def ax_def ay_def bx_def by_def cx_def cy_def d_def
    TriangleStroke.select_convs fst_conv snd_conv
  by (rule refl)

text \<open>A degenerate triangle contains no point: the early return.\<close>

lemma isPointInTriangle_degenerate:
  assumes "\<bar>triangleDenom tri w h\<bar> < 1 / 10 ^ 10"
  shows "isPointInTriangle px py tri w h = Some False"
  using assms by (simp add: isPointInTriangle_code)

text \<open>
  Past the early return the determinant is not zero, both divisions return, and the sign
  test on the three weights decides containment by weights.
\<close>

lemma isPointInTriangle_nondegenerate:
  assumes nz: "\<not> \<bar>triangleDenom tri w h\<bar> < 1 / 10 ^ 10"
  shows "isPointInTriangle px py tri w h =
     Some (insideByWeights (px * w, py * h)
             (stroke_p1 (drawTriangleOnContext w h tri))
             (stroke_p2 (drawTriangleOnContext w h tri))
             (stroke_p3 (drawTriangleOnContext w h tri)))"
proof -
  define ax where "ax = fst (stroke_p1 (drawTriangleOnContext w h tri))"
  define ay where "ay = snd (stroke_p1 (drawTriangleOnContext w h tri))"
  define bx where "bx = fst (stroke_p2 (drawTriangleOnContext w h tri))"
  define "by" where "by = snd (stroke_p2 (drawTriangleOnContext w h tri))"
  define cx where "cx = fst (stroke_p3 (drawTriangleOnContext w h tri))"
  define cy where "cy = snd (stroke_p3 (drawTriangleOnContext w h tri))"
  define d where "d = triangleDenom tri w h"
  define nA where "nA = (by - cy) * (px * w - cx) + (cx - bx) * (py * h - cy)"
  define nB where "nB = (cy - ay) * (px * w - cx) + (ax - cx) * (py * h - cy)"
  have code: "isPointInTriangle px py tri w h =
      (if \<bar>d\<bar> < 1 / 10 ^ 10 then Some False
       else (case js_div nA d of None \<Rightarrow> None
             | Some a \<Rightarrow> (case js_div nB d of None \<Rightarrow> None
                 | Some b \<Rightarrow> Some (a \<ge> 0 \<and> b \<ge> 0 \<and> 1 - a - b \<ge> 0))))"
    unfolding nA_def nB_def ax_def ay_def bx_def by_def cx_def cy_def d_def
    by (rule isPointInTriangle_code)
  have verts: "stroke_p1 (drawTriangleOnContext w h tri) = (ax, ay)"
    "stroke_p2 (drawTriangleOnContext w h tri) = (bx, by)"
    "stroke_p3 (drawTriangleOnContext w h tri) = (cx, cy)"
    unfolding ax_def ay_def bx_def by_def cx_def cy_def by simp_all
  have den: "d = (by - cy) * (ax - cx) + (cx - bx) * (ay - cy)"
    unfolding d_def triangleDenom_def Let_def verts baryDenom_def by simp
  have far: "\<not> \<bar>d\<bar> < 1 / 10 ^ 10" using nz by (simp add: d_def)
  then have d0: "d \<noteq> 0" by auto
  have "(nA / d \<ge> 0 \<and> nB / d \<ge> 0 \<and> 1 - nA / d - nB / d \<ge> 0)
       \<longleftrightarrow> insideByWeights (px * w, py * h) (ax, ay) (bx, by) (cx, cy)"
    using bary_iff[of "by" cy ax cx bx ay "px * w" "py * h"] d0
    unfolding den nA_def nB_def by blast
  then show ?thesis using far d0 by (simp add: code verts js_div_def)
qed

text \<open>
  C8. For every query point and triangle descriptor, \<open>isPointInTriangle\<close> returns a
  result (no division by zero is ever performed), and the result is "contained" exactly
  when the determinant is not near zero and the point has barycentric weights in
  \<open>[0, 1]\<close> with respect to the pixel-space vertices; for a degenerate triangle the
  result is therefore "not contained".
\<close>

theorem isPointInTriangle_barycentric:
  "isPointInTriangle px py tri w h =
     Some (\<not> \<bar>triangleDenom tri w h\<bar> < 1 / 10 ^ 10 \<and>
           insideByWeights (px * w, py * h)
             (stroke_p1 (drawTriangleOnContext w h tri))
             (stroke_p2 (drawTriangleOnContext w h tri))
             (stroke_p3 (drawTriangleOnContext w h tri)))"
proof (cases "\<bar>triangleDenom tri w h\<bar> < 1 / 10 ^ 10")
  case True
  then have "isPointInTriangle px py tri w h = Some False"
    by (rule isPointInTriangle_degenerate)
  with True show ?thesis by simp
next
  case False
  then have "isPointInTriangle px py tri w h =
     Some (insideByWeights (px * w, py * h)
             (stroke_p1 (drawTriangleOnContext w h tri))
             (stroke_p2 (drawTriangleOnContext w h tri))
             (stroke_p3 (drawTriangleOnContext w h tri)))"
    by (rule isPointInTriangle_nondegenerate)
  with False show ?thesis by simp
qed

section \<open>Hit testing: proofs\<close>

lemma firstHit_find:
  "firstHit x y as w h = find (\<lambda>a. isPointInTriangle x y a w h = Some True) as"
  by (induction as) auto

lemma find_append_case:
  "find P (xs @ ys) = (case find P xs of None \<Rightarrow> find P ys | Some x \<Rightarrow> Some x)"
  by (induction xs) auto

lemma find_rev_last:
  "find P (rev xs) = (if filter P xs = [] then None else Some (last (filter P xs)))"
  by (induction xs) (auto simp: find_append_case split: option.splits)

lemma findTriangleAtPosition_eq:
  "findTriangleAtPosition x y t as w h =
     (if filter (hitAt x y t w h) as = [] then None else Some (last (filter (hitAt x y t w h) as)))"
proof -
  have "filter (\<lambda>a. isPointInTriangle x y a w h = Some True)
          (filter (\<lambda>a. t \<ge> anno_start a \<and> t \<le> anno_end a) as) = filter (hitAt x y t w h) as"
    unfolding filter_filter by (rule filter_cong) (auto simp: hitAt_def)
  then show ?thesis
    unfolding findTriangleAtPosition_def Let_def firstHit_find find_rev_last
    by simp
qed

text \<open>The determinant of an annotation's triangle, in closed form.\<close>

lemma triangleDenom_closed:
  "triangleDenom tri w h = - ((anno_size tri * min w h)\<^sup>2 * sqrt 3 / 2)"
  unfolding triangleDenom_def baryDenom_def drawTriangleOnContext_def Let_def
  by (simp add: power2_eq_square algebra_simps)

lemma nondegenerate_side:
  assumes "1 / 10 ^ 4 \<le> \<bar>anno_size tri * min w h\<bar>"
  shows "\<not> \<bar>triangleDenom tri w h\<bar> < 1 / 10 ^ 10"
proof -
  define s where "s = \<bar>anno_size tri * min w h\<bar>"
  have s: "1 / 10 ^ 4 \<le> s" using assms by (simp add: s_def)
  have "(1 / 10 ^ 4) * (1 / 10 ^ 4) \<le> s * s"
    using s by (intro mult_mono) auto
  then have sq: "1 / 10 ^ 8 \<le> s\<^sup>2" by (simp add: power2_eq_square)
  have r: "1 \<le> sqrt 3" by simp
  have "1 / 10 ^ 8 * 1 \<le> s\<^sup>2 * sqrt 3"
    using sq r by (intro mult_mono) auto
  then have "1 / 10 ^ 8 / 2 \<le> s\<^sup>2 * sqrt 3 / 2" by simp
  moreover have "s\<^sup>2 = (anno_size tri * min w h)\<^sup>2"
    unfolding s_def by (rule power2_abs)
  moreover have "\<bar>triangleDenom tri w h\<bar> = (anno_size tri * min w h)\<^sup>2 * sqrt 3 / 2"
  proof -
    have "0 \<le> (anno_size tri * min w h)\<^sup>2 * sqrt 3 / 2" by simp
    then show ?thesis unfolding triangleDenom_closed by (simp only: abs_minus_cancel abs_of_nonneg)
  qed
  ultimately show ?thesis by simp
qed

text \<open>The centroid of a triangle that is not degenerate is inside it, with weights 1/3.\<close>

lemma centroid_hit:
  assumes "\<not> \<bar>triangleDenom tri w h\<bar> < 1 / 10 ^ 10"
  shows "isPointInTriangle (anno_x tri) (anno_y tri) tri w h = Some True"
proof -
  have "insideByWeights (anno_x tri * w, anno_y tri * h)
             (stroke_p1 (drawTriangleOnContext w h tri))
             (stroke_p2 (drawTriangleOnContext w h tri))
             (stroke_p3 (drawTriangleOnContext w h tri))"
    unfolding insideByWeights_def drawTriangleOnContext_def Let_def
    by (intro exI[of _ "1 / 3"]) (simp add: algebra_simps)
  then show ?thesis using assms by (simp add: isPointInTriangle_nondegenerate)
qed

text \<open>
  C6. \<open>findTriangleAtPosition\<close> returns none exactly when no annotation active at the
  query time has a triangle containing the query point; when some do, it returns the last
  of them in creation order (the order of the annotation list).
\<close>

theorem findTriangleAtPosition_topmost:
  "(findTriangleAtPosition x y t as w h = None \<longleftrightarrow> (\<forall>a \<in> set as. \<not> hitAt x y t w h a)) \<and>
   (filter (hitAt x y t w h) as \<noteq> [] \<longrightarrow>
      findTriangleAtPosition x y t as w h = Some (last (filter (hitAt x y t w h) as)))"
proof (cases "filter (hitAt x y t w h) as = []")
  case True
  then have none: "\<forall>a \<in> set as. \<not> hitAt x y t w h a" by (simp add: filter_empty_conv)
  from True have "findTriangleAtPosition x y t as w h = None"
    by (simp add: findTriangleAtPosition_eq)
  with True none show ?thesis by simp
next
  case False
  then have some: "\<not> (\<forall>a \<in> set as. \<not> hitAt x y t w h a)" by (simp add: filter_empty_conv)
  from False have "findTriangleAtPosition x y t as w h = Some (last (filter (hitAt x y t w h) as))"
    by (simp add: findTriangleAtPosition_eq)
  with False some show ?thesis by simp
qed

lemma example_hits:
  "hitAt (1 / 2) (1 / 2) 2 100 100 olderTriangle" "hitAt (1 / 2) (1 / 2) 2 100 100 newerTriangle"
proof -
  have "\<not> \<bar>triangleDenom olderTriangle 100 100\<bar> < 1 / 10 ^ 10"
    by (rule nondegenerate_side) (simp add: olderTriangle_def)
  from centroid_hit[OF this] show "hitAt (1 / 2) (1 / 2) 2 100 100 olderTriangle"
    by (simp add: hitAt_def olderTriangle_def)
  have "\<not> \<bar>triangleDenom newerTriangle 100 100\<bar> < 1 / 10 ^ 10"
    by (rule nondegenerate_side) (simp add: newerTriangle_def)
  from centroid_hit[OF this] show "hitAt (1 / 2) (1 / 2) 2 100 100 newerTriangle"
    by (simp add: hitAt_def newerTriangle_def)
qed

text \<open>
  At time 2 both example triangles contain the centre of a 100 by 100 frame and the newer
  one is returned; at time 5 neither is active and nothing is returned.
\<close>

theorem findTriangleAtPosition_topmost_witness:
  "filter (hitAt (1 / 2) (1 / 2) 2 100 100) [olderTriangle, newerTriangle] \<noteq> [] \<and>
   findTriangleAtPosition (1 / 2) (1 / 2) 2 [olderTriangle, newerTriangle] 100 100 = Some newerTriangle \<and>
   findTriangleAtPosition (1 / 2) (1 / 2) 5 [olderTriangle, newerTriangle] 100 100 = None"
proof -
  have miss: "\<not> hitAt (1 / 2) (1 / 2) 5 100 100 olderTriangle"
    "\<not> hitAt (1 / 2) (1 / 2) 5 100 100 newerTriangle"
    by (simp_all add: hitAt_def olderTriangle_def newerTriangle_def)
  show ?thesis
    using findTriangleAtPosition_topmost[of "1 / 2" "1 / 2" 2 "[olderTriangle, newerTriangle]" 100 100]
      findTriangleAtPosition_topmost[of "1 / 2" "1 / 2" 5 "[olderTriangle, newerTriangle]" 100 100]
      example_hits miss
    by simp
qed

section \<open>Tracks: proofs\<close>

lemma keys_groupStep:
  "map fst (groupStep m a) =
     (if mapHas m (triangleIdOf a) then map fst m else map fst m @ [triangleIdOf a])"
  by (auto simp: groupStep_def Let_def mapHas_def split_def comp_def cong: map_cong)

lemma distinct_groupStep:
  "distinct (map fst m) \<Longrightarrow> distinct (map fst (groupStep m a))"
  by (auto simp: keys_groupStep mapHas_def)

lemma map_of_keyed_map:
  "map_of (map (\<lambda>(k, g). if k = K then (k, f g) else (k, g)) m) k' =
     (if k' = K then map_option f (map_of m k') else map_of m k')"
  by (induction m) auto

lemma map_of_groupStep:
  "map_of (groupStep m a) k =
     (if k = triangleIdOf a
      then Some ((case map_of m k of None \<Rightarrow> [] | Some g \<Rightarrow> g) @ [a])
      else map_of m k)"
proof (cases "mapHas m (triangleIdOf a)")
  case True
  then obtain g where "map_of m (triangleIdOf a) = Some g"
    unfolding mapHas_def by (metis map_of_eq_None_iff not_Some_eq set_map)
  with True show ?thesis
    by (simp add: groupStep_def Let_def map_of_keyed_map)
next
  case False
  then have "map_of m (triangleIdOf a) = None"
    unfolding mapHas_def by (simp add: map_of_eq_None_iff)
  with False show ?thesis
    unfolding groupStep_def Let_def map_of_keyed_map
    by (simp add: map_add_def split: option.splits)
qed

lemma distinct_foldl_groupStep:
  "distinct (map fst m) \<Longrightarrow> distinct (map fst (foldl groupStep m xs))"
  by (induction xs arbitrary: m) (auto simp: distinct_groupStep)

lemma map_of_foldl_groupStep:
  "map_of (foldl groupStep m xs) k =
     (if map_of m k = None \<and> k \<notin> triangleIdOf ` set xs then None
      else Some ((case map_of m k of None \<Rightarrow> [] | Some g \<Rightarrow> g) @ filter (\<lambda>a. triangleIdOf a = k) xs))"
proof (induction xs arbitrary: m)
  case Nil
  then show ?case by (auto split: option.splits)
next
  case (Cons x xs)
  show ?case
    by (simp add: Cons.IH map_of_groupStep split: option.splits) 
qed


lemma set_foldl_groupStep:
  "set (foldl groupStep [] xs) =
     (\<lambda>k. (k, filter (\<lambda>a. triangleIdOf a = k) xs)) ` triangleIdOf ` set xs"
proof -
  have d: "distinct (map fst (foldl groupStep [] xs))"
    by (rule distinct_foldl_groupStep) simp
  have "(k, g) \<in> set (foldl groupStep [] xs) \<longleftrightarrow>
        k \<in> triangleIdOf ` set xs \<and> g = filter (\<lambda>a. triangleIdOf a = k) xs" for k g
    using map_of_eq_Some_iff[OF d, of k g, symmetric]
    by (auto simp: map_of_foldl_groupStep)
  then show ?thesis by (auto simp: image_iff)
qed

lemma trackOf_nonempty:
  assumes "g \<noteq> []"
  shows "\<exists>tr. trackOf (k, g) = Some tr \<and> trackMembers tr = (k, toTimeline ` set g)"
proof -
  have "length (sort_key anno_start g) = length g" by simp
  with assms have "sort_key anno_start g \<noteq> []" by (metis length_0_conv)
  then obtain f rest where fr: "sort_key anno_start g = f # rest"
    by (cases "sort_key anno_start g") auto
  have "set (map toTimeline (sort_key anno_start g)) = toTimeline ` set g" by simp
  then have m: "set (map toTimeline (f # rest)) = toTimeline ` set g" unfolding fr .
  show ?thesis
    unfolding trackOf_def trackMembers_def prod.case fr list.case
    using m by simp
qed

lemma tracksOf_members:
  assumes "\<forall>e \<in> set m. snd e \<noteq> []"
  shows "\<exists>ts. tracksOf m = Some ts \<and>
           map trackMembers ts = map (\<lambda>e. (fst e, toTimeline ` set (snd e))) m"
  using assms
proof (induction m)
  case Nil
  then show ?case by simp
next
  case (Cons e m)
  obtain k g where e: "e = (k, g)" by (cases e)
  with Cons.prems have "g \<noteq> []" by simp
  from trackOf_nonempty[OF this, of k] obtain tr
    where tr: "trackOf (k, g) = Some tr" "trackMembers tr = (k, toTimeline ` set g)" by blast
  from Cons obtain ts where ts: "tracksOf m = Some ts"
    "map trackMembers ts = map (\<lambda>e. (fst e, toTimeline ` set (snd e))) m" by auto
  show ?case using e tr ts by simp
qed

text \<open>The tracks of an annotation list, by membership.\<close>

lemma createTriangleTracks_members:
  "\<exists>ts. createTriangleTracks xs = Some ts \<and>
     distinct (map track_triangleId ts) \<and>
     trackMembers ` set ts =
       (\<lambda>k. (k, toTimeline ` {a \<in> set xs. triangleIdOf a = k})) ` triangleIdOf ` set xs"
proof -
  let ?G = "foldl groupStep [] xs"
  have ne: "\<forall>e \<in> set ?G. snd e \<noteq> []"
    unfolding set_foldl_groupStep by (auto simp: filter_empty_conv)
  from tracksOf_members[OF this] obtain ts where ts: "tracksOf ?G = Some ts"
    "map trackMembers ts = map (\<lambda>e. (fst e, toTimeline ` set (snd e))) ?G" by blast
  have "map track_triangleId ts = map fst (map trackMembers ts)"
    by (simp add: trackMembers_def comp_def)
  also have "\<dots> = map fst ?G" unfolding ts(2) by (simp add: comp_def)
  finally have d: "distinct (map track_triangleId ts)"
    using distinct_foldl_groupStep[of "[]" xs] by simp
  have "trackMembers ` set ts = set (map trackMembers ts)" by simp
  also have "\<dots> = (\<lambda>e. (fst e, toTimeline ` set (snd e))) ` set ?G" unfolding ts(2) by simp
  also have "\<dots> = (\<lambda>k. (k, toTimeline ` {a \<in> set xs. triangleIdOf a = k})) ` triangleIdOf ` set xs"
    unfolding set_foldl_groupStep by (simp add: image_image)
  finally show ?thesis using ts(1) d by (auto simp: createTriangleTracks_def)
qed

text \<open>
  C9. Track derivation is a function of the annotation set: for two lists holding the same
  annotations in any order, \<open>createTriangleTracks\<close> returns tracks for both, with the
  same set of tracks by membership, one track per key, each annotation under the key formed
  from its rounded position and colour. (Applied twice to the same list it returns the same
  tracks, being a function.)
\<close>

theorem createTriangleTracks_order_independent:
  assumes "mset xs = mset ys"
  shows "\<exists>ts us. createTriangleTracks xs = Some ts \<and> createTriangleTracks ys = Some us \<and>
           trackMembers ` set ts = trackMembers ` set us \<and>
           distinct (map track_triangleId ts) \<and> distinct (map track_triangleId us) \<and>
           trackMembers ` set ts =
             (\<lambda>k. (k, toTimeline ` {a \<in> set xs. triangleIdOf a = k})) ` triangleIdOf ` set xs"
proof -
  have s: "set xs = set ys" using assms by (rule mset_eq_setD)
  from createTriangleTracks_members[of xs] createTriangleTracks_members[of ys]
  show ?thesis unfolding s by auto
qed

lemma key_older: "triangleIdOf olderTriangle = ''50_50_#c0c5ce''"
  by (simp add: triangleIdOf_def triangleKey_def olderTriangle_def Math_round_def showInt_def
      showNat.simps digitChar_def)

lemma key_newer: "triangleIdOf newerTriangle = ''50_50_#ff0000''"
  by (simp add: triangleIdOf_def triangleKey_def newerTriangle_def Math_round_def showInt_def
      showNat.simps digitChar_def)

text \<open>The order of the tracks follows the order of the annotations.\<close>

lemma tracks_example:
  "map track_triangleId (the (createTriangleTracks [olderTriangle, newerTriangle])) =
     [''50_50_#c0c5ce'', ''50_50_#ff0000'']"
  "map track_triangleId (the (createTriangleTracks [newerTriangle, olderTriangle])) =
     [''50_50_#ff0000'', ''50_50_#c0c5ce'']"
  by (simp_all add: createTriangleTracks_def groupStep_def Let_def mapHas_def key_older key_newer
      trackOf_def)

theorem createTriangleTracks_order_independent_witness:
  "mset [olderTriangle, newerTriangle] = mset [newerTriangle, olderTriangle] \<and>
   (\<exists>ts us. createTriangleTracks [olderTriangle, newerTriangle] = Some ts \<and>
      createTriangleTracks [newerTriangle, olderTriangle] = Some us \<and>
      trackMembers ` set ts = trackMembers ` set us \<and>
      map track_triangleId ts = [''50_50_#c0c5ce'', ''50_50_#ff0000''] \<and>
      map track_triangleId us = [''50_50_#ff0000'', ''50_50_#c0c5ce''])"
proof -
  have m: "mset [olderTriangle, newerTriangle] = mset [newerTriangle, olderTriangle]" by simp
  from createTriangleTracks_order_independent[OF m] obtain ts us where
    all: "createTriangleTracks [olderTriangle, newerTriangle] = Some ts \<and>
       createTriangleTracks [newerTriangle, olderTriangle] = Some us \<and>
       trackMembers ` set ts = trackMembers ` set us \<and>
       distinct (map track_triangleId ts) \<and> distinct (map track_triangleId us) \<and>
       trackMembers ` set ts =
         (\<lambda>k. (k, toTimeline ` {a \<in> set [olderTriangle, newerTriangle]. triangleIdOf a = k})) `
           triangleIdOf ` set [olderTriangle, newerTriangle]" by (elim exE)
  note r1 = all[THEN conjunct1]
  note r2 = all[THEN conjunct2, THEN conjunct1]
  note r3 = all[THEN conjunct2, THEN conjunct2, THEN conjunct1]
  have k1: "map track_triangleId ts = [''50_50_#c0c5ce'', ''50_50_#ff0000'']"
    using tracks_example(1) unfolding r1 option.sel .
  have k2: "map track_triangleId us = [''50_50_#ff0000'', ''50_50_#c0c5ce'']"
    using tracks_example(2) unfolding r2 option.sel .
  show ?thesis
    by (intro conjI exI[of _ ts] exI[of _ us]) (rule m r1 r2 r3 k1 k2)+
qed

section \<open>Creating and retiming annotations: proofs\<close>

lemma find_Some_first:
  "\<exists>a \<in> set xs. P a \<Longrightarrow> \<exists>e. find P xs = Some e \<and> e \<in> set xs \<and> P e"
  by (induction xs) auto

text \<open>
  C7. When the key of the clicked position (clamped, rounded, with the default colour)
  equals the key of an existing annotation, \<open>addAnnotationAt\<close> leaves the annotation
  list as it is, selects the first existing annotation with that key and shows one more
  toast, a notice of variant "default".
\<close>

theorem addAnnotationAt_duplicate:
  assumes "\<exists>a \<in> set (st_annotations st).
             triangleIdOf a = triangleKey (clamp xNorm 0 1) (clamp yNorm 0 1) ''#c0c5ce''"
  shows "st_annotations (addAnnotationAt uuid xNorm yNorm st) = st_annotations st \<and>
         length (st_annotations (addAnnotationAt uuid xNorm yNorm st)) = length (st_annotations st) \<and>
         (\<exists>e \<in> set (st_annotations st).
            triangleIdOf e = triangleKey (clamp xNorm 0 1) (clamp yNorm 0 1) ''#c0c5ce'' \<and>
            st_selectedId (addAnnotationAt uuid xNorm yNorm st) = Some (anno_id e) \<and>
            find (\<lambda>a. triangleIdOf a = triangleIdOf e) (st_annotations st) = Some e) \<and>
         st_toasts (addAnnotationAt uuid xNorm yNorm st) =
           st_toasts st @
             [\<lparr> toast_title = ''Triangle already exists'',
                toast_description =
                  ''A triangle already exists at this position. Selected existing triangle.'',
                toast_variant = Some ''default'' \<rparr>]"
proof -
  let ?k = "triangleKey (clamp xNorm 0 1) (clamp yNorm 0 1) ''#c0c5ce''"
  from find_Some_first[of "st_annotations st" "\<lambda>a. triangleIdOf a = ?k", OF assms]
  obtain e where e: "find (\<lambda>a. triangleIdOf a = ?k) (st_annotations st) = Some e"
    "e \<in> set (st_annotations st)" "triangleIdOf e = ?k" by (elim exE conjE)
  have f: "find (\<lambda>a. triangleKey (anno_x a) (anno_y a) (anno_color a) = ?k) (st_annotations st) = Some e"
    using e(1) by (simp add: triangleIdOf_def)
  have r: "addAnnotationAt uuid xNorm yNorm st =
      toast \<lparr> toast_title = ''Triangle already exists'',
                toast_description =
                  ''A triangle already exists at this position. Selected existing triangle.'',
                toast_variant = Some ''default'' \<rparr>
        (st\<lparr> st_selectedId := Some (anno_id e) \<rparr>)"
    unfolding addAnnotationAt_def Let_def f by simp
  show ?thesis
    unfolding r using e by (auto simp: toast_def)
qed

lemma key_click:
  "triangleKey (clamp (503 / 1000) 0 1) (clamp (498 / 1000) 0 1) ''#c0c5ce'' = ''50_50_#c0c5ce''"
  by (simp add: triangleKey_def clamp_def Math_round_def showInt_def showNat.simps digitChar_def)

text \<open>
  A click at (0.503, 0.498) rounds to the key of the older example annotation: the list is
  unchanged, that annotation is selected and the notice is shown.
\<close>

theorem addAnnotationAt_duplicate_witness:
  "(\<exists>a \<in> set (st_annotations exampleState).
      triangleIdOf a = triangleKey (clamp (503 / 1000) 0 1) (clamp (498 / 1000) 0 1) ''#c0c5ce'') \<and>
   st_annotations (addAnnotationAt ''fresh'' (503 / 1000) (498 / 1000) exampleState) =
     [olderTriangle, newerTriangle] \<and>
   st_selectedId (addAnnotationAt ''fresh'' (503 / 1000) (498 / 1000) exampleState) = Some ''older'' \<and>
   map toast_title (st_toasts (addAnnotationAt ''fresh'' (503 / 1000) (498 / 1000) exampleState)) =
     [''Triangle already exists'']"
proof -
  have h: "\<exists>a \<in> set (st_annotations exampleState).
      triangleIdOf a = triangleKey (clamp (503 / 1000) 0 1) (clamp (498 / 1000) 0 1) ''#c0c5ce''"
    unfolding key_click by (simp add: exampleState_def key_older)
  note t = addAnnotationAt_duplicate[OF h, of "''fresh''"]
  from t[THEN conjunct2, THEN conjunct2, THEN conjunct1] obtain e where
    e: "e \<in> set (st_annotations exampleState)"
       "triangleIdOf e = ''50_50_#c0c5ce''"
       "st_selectedId (addAnnotationAt ''fresh'' (503 / 1000) (498 / 1000) exampleState) = Some (anno_id e)"
    unfolding key_click by (elim bexE conjE)
  from e(1,2) have "e = olderTriangle"
    by (auto simp: exampleState_def key_newer)
  then have s: "st_selectedId (addAnnotationAt ''fresh'' (503 / 1000) (498 / 1000) exampleState) = Some ''older''"
    using e(3) by (simp add: olderTriangle_def)
  have a: "st_annotations (addAnnotationAt ''fresh'' (503 / 1000) (498 / 1000) exampleState) =
     [olderTriangle, newerTriangle]"
    using t[THEN conjunct1] by (simp add: exampleState_def)
  have ts: "map toast_title (st_toasts (addAnnotationAt ''fresh'' (503 / 1000) (498 / 1000) exampleState)) =
     [''Triangle already exists'']"
    using t[THEN conjunct2, THEN conjunct2, THEN conjunct2] by (simp add: exampleState_def)
  show ?thesis by (intro conjI) (rule h a s ts)+
qed

section \<open>Timeline drag: proofs\<close>

lemma retime_start: "retime (Some ns) None a = a\<lparr> anno_start := ns \<rparr>"
  by (simp add: retime_def)

lemma retime_end: "retime None (Some ne) a = a\<lparr> anno_end := ne \<rparr>"
  by (simp add: retime_def)



text \<open>One pointer move of each resize gesture.\<close>

lemma move_resize_left:
  "pointerMove m (Some rect) (ResizeLeft ident sx os oe) cx st =
     st\<lparr> st_annotations :=
           map (\<lambda>a. if anno_id a = ident
                    then a\<lparr> anno_start := clamp (fl (os + dragDelta cx sx rect (st_duration st))) 0
                                               (fl (oe - m)) \<rparr>
                    else a)
             (st_annotations st) \<rparr>"
  by (simp add: pointerMove_def Let_def updateAnnoTime_def retime_start)

lemma move_resize_right:
  "pointerMove m (Some rect) (ResizeRight ident sx os oe) cx st =
     st\<lparr> st_annotations :=
           map (\<lambda>a. if anno_id a = ident
                    then a\<lparr> anno_end := clamp (fl (oe + dragDelta cx sx rect (st_duration st)))
                                             (fl (os + m)) (st_duration st) \<rparr>
                    else a)
             (st_annotations st) \<rparr>"
  by (simp add: pointerMove_def Let_def updateAnnoTime_def retime_end)



lemma gesture_Nil: "gesture m drag [] st = st"
  by (simp add: gesture_def)

lemma gesture_Cons:
  "gesture m drag ((rect, cx) # events) st = gesture m drag events (pointerMove m (Some rect) drag cx st)"
  by (simp add: gesture_def)

text \<open>
  The moves of a gesture, however many: the state after the last one is the state at
  pointer-down with the bounds that the last pointer position gives.
\<close>

lemma move_drag_move:
  "pointerMove m (Some rect) (DragMove ident sx os oe) cx st =
     st\<lparr> st_annotations :=
           map (\<lambda>a. if anno_id a = ident
                    then a\<lparr> anno_start := clamp (fl (os + dragDelta cx sx rect (st_duration st))) 0
                                               (max 0 (fl (st_duration st - fl (oe - os)))),
                           anno_end := fl (clamp (fl (os + dragDelta cx sx rect (st_duration st))) 0
                                               (max 0 (fl (st_duration st - fl (oe - os))))
                                           + fl (oe - os)) \<rparr>
                    else a)
             (st_annotations st) \<rparr>"
  by (simp add: pointerMove_def Let_def updateAnnoTime_def retime_def)

lemma gesture_resize_left:
  "events \<noteq> [] \<Longrightarrow>
   gesture m (ResizeLeft ident sx os oe) events st =
     st\<lparr> st_annotations :=
           map (\<lambda>a. if anno_id a = ident
                    then a\<lparr> anno_start :=
                           clamp (fl (os + dragDelta (snd (last events)) sx (fst (last events))
                                         (st_duration st))) 0 (fl (oe - m)) \<rparr>
                    else a)
             (st_annotations st) \<rparr>"
proof (induction events arbitrary: st)
  case Nil
  then show ?case by simp
next
  case (Cons ev events)
  obtain rect cx where ev: "ev = (rect, cx)" by (cases ev)
  let ?st1 = "pointerMove m (Some rect) (ResizeLeft ident sx os oe) cx st"
  show ?case
  proof (cases "events = []")
    case True
    show ?thesis unfolding ev True gesture_Cons gesture_Nil move_resize_left by simp
  next
    case False
    have d: "st_duration ?st1 = st_duration st" unfolding move_resize_left by simp
    have l: "last ((rect, cx) # events) = last events" using False by simp
    show ?thesis
      unfolding ev gesture_Cons Cons.IH[OF False] d l unfolding move_resize_left
      by (simp add: comp_def if_distrib cong: if_cong)
  qed
qed

lemma gesture_resize_right:
  "events \<noteq> [] \<Longrightarrow>
   gesture m (ResizeRight ident sx os oe) events st =
     st\<lparr> st_annotations :=
           map (\<lambda>a. if anno_id a = ident
                    then a\<lparr> anno_end :=
                           clamp (fl (oe + dragDelta (snd (last events)) sx (fst (last events))
                                         (st_duration st))) (fl (os + m)) (st_duration st) \<rparr>
                    else a)
             (st_annotations st) \<rparr>"
proof (induction events arbitrary: st)
  case Nil
  then show ?case by simp
next
  case (Cons ev events)
  obtain rect cx where ev: "ev = (rect, cx)" by (cases ev)
  let ?st1 = "pointerMove m (Some rect) (ResizeRight ident sx os oe) cx st"
  show ?case
  proof (cases "events = []")
    case True
    show ?thesis unfolding ev True gesture_Cons gesture_Nil move_resize_right by simp
  next
    case False
    have d: "st_duration ?st1 = st_duration st" unfolding move_resize_right by simp
    have l: "last ((rect, cx) # events) = last events" using False by simp
    show ?thesis
      unfolding ev gesture_Cons Cons.IH[OF False] d l unfolding move_resize_right
      by (simp add: comp_def if_distrib cong: if_cong)
  qed
qed

lemma gesture_drag_move:
  "events \<noteq> [] \<Longrightarrow>
   gesture m (DragMove ident sx os oe) events st =
     st\<lparr> st_annotations :=
           map (\<lambda>a. if anno_id a = ident
                    then a\<lparr> anno_start :=
                             clamp (fl (os + dragDelta (snd (last events)) sx (fst (last events))
                                           (st_duration st))) 0
                               (max 0 (fl (st_duration st - fl (oe - os)))),
                           anno_end :=
                             fl (clamp (fl (os + dragDelta (snd (last events)) sx (fst (last events))
                                               (st_duration st))) 0
                                   (max 0 (fl (st_duration st - fl (oe - os))))
                                 + fl (oe - os)) \<rparr>
                    else a)
             (st_annotations st) \<rparr>"
proof (induction events arbitrary: st)
  case Nil
  then show ?case by simp
next
  case (Cons ev events)
  obtain rect cx where ev: "ev = (rect, cx)" by (cases ev)
  let ?st1 = "pointerMove m (Some rect) (DragMove ident sx os oe) cx st"
  show ?case
  proof (cases "events = []")
    case True
    show ?thesis unfolding ev True gesture_Cons gesture_Nil move_drag_move by simp
  next
    case False
    have d: "st_duration ?st1 = st_duration st" unfolding move_drag_move by simp
    have l: "last ((rect, cx) # events) = last events" using False by simp
    show ?thesis
      unfolding ev gesture_Cons Cons.IH[OF False] d l unfolding move_drag_move
      by (simp add: comp_def if_distrib cong: if_cong)
  qed
qed












text \<open>A click on free space appends the new record and selects it.\<close>

lemma addAnnotationAt_fresh:
  assumes "find (\<lambda>a. triangleIdOf a = triangleKey (clamp xNorm 0 1) (clamp yNorm 0 1) ''#c0c5ce'')
             (st_annotations st) = None"
  shows "addAnnotationAt uuid xNorm yNorm st =
     st\<lparr> st_annotations := st_annotations st @
       [\<lparr> anno_id = uuid, anno_x = clamp xNorm 0 1, anno_y = clamp yNorm 0 1, anno_size = 3 / 100,
          anno_color = ''#c0c5ce'', anno_strokeWidth = 5, anno_start = st_currentTime st,
          anno_end = clamp (fl (st_currentTime st + defaultAnnoDuration)) 0
                       (if st_duration st \<noteq> 0 then st_duration st
                        else fl (st_currentTime st + defaultAnnoDuration)),
          anno_label = None \<rparr>],
         st_selectedId := Some uuid \<rparr>"
proof -
  have "find (\<lambda>a. triangleKey (anno_x a) (anno_y a) (anno_color a) =
                triangleKey (clamp xNorm 0 1) (clamp yNorm 0 1) ''#c0c5ce'') (st_annotations st) = None"
    using assms by (simp add: triangleIdOf_def)
  then show ?thesis unfolding addAnnotationAt_def Let_def by simp
qed

lemma key_quarter:
  "triangleKey (clamp (1 / 4) 0 1) (clamp (1 / 4) 0 1) ''#c0c5ce'' = ''25_25_#c0c5ce''"
  by (simp add: triangleKey_def clamp_def Math_round_def showInt_def showNat.simps digitChar_def)

lemma quarter_fresh:
  "find (\<lambda>a. triangleIdOf a = triangleKey (clamp (1 / 4) 0 1) (clamp (1 / 4) 0 1) ''#c0c5ce'')
     (st_annotations (exampleState\<lparr> st_currentTime := ct \<rparr>)) = None"
  unfolding key_quarter by (simp add: exampleState_def key_older key_newer)






section \<open>Annotation bounds: proofs\<close>

text \<open>Rounding moves a value of magnitude at most \<open>2^34\<close> by at most \<open>2^-18\<close>.\<close>

lemma fl_close:
  assumes "\<bar>x\<bar> \<le> 2 ^ 34"
  shows "x - 1 / 2 ^ 18 \<le> fl x" "fl x \<le> x + 1 / 2 ^ 18"
proof -
  have "\<bar>fl x - x\<bar> \<le> \<bar>x\<bar> / 2 ^ 53 + 1 / 2 ^ 100" by (rule fl_error_bound)
  also have "\<dots> \<le> 2 ^ 34 / 2 ^ 53 + 1 / 2 ^ 100" using assms by (simp add: divide_right_mono)
  also have "\<dots> \<le> 1 / 2 ^ 18" by simp
  finally have e: "\<bar>fl x - x\<bar> \<le> 1 / 2 ^ 18" .
  show "x - 1 / 2 ^ 18 \<le> fl x" using e by linarith
  show "fl x \<le> x + 1 / 2 ^ 18" using e by linarith
qed

text \<open>
  The end of a new annotation: it is after the start exactly when no duration is known
  or the playhead is before the end of the media; with the playhead at or after the end
  of the media it is the duration.
\<close>

lemma created_end:
  assumes ct: "0 \<le> ct" "ct \<le> 2 ^ 32"
  shows "ct < clamp (fl (ct + defaultAnnoDuration)) 0
               (if d \<noteq> 0 then d else fl (ct + defaultAnnoDuration))
           \<longleftrightarrow> d = 0 \<or> ct < d"
    and "d \<noteq> 0 \<Longrightarrow> d \<le> ct \<Longrightarrow>
         clamp (fl (ct + defaultAnnoDuration)) 0
               (if d \<noteq> 0 then d else fl (ct + defaultAnnoDuration)) = d"
proof -
  have "\<bar>ct + 3\<bar> \<le> 2 ^ 34" using ct by simp
  from fl_close[OF this] have x: "ct < fl (ct + 3)" "0 < fl (ct + 3)" using ct by simp_all
  show "ct < clamp (fl (ct + defaultAnnoDuration)) 0
               (if d \<noteq> 0 then d else fl (ct + defaultAnnoDuration))
           \<longleftrightarrow> d = 0 \<or> ct < d"
    using x by (auto simp: clamp_def defaultAnnoDuration_def)
  show "d \<noteq> 0 \<Longrightarrow> d \<le> ct \<Longrightarrow>
         clamp (fl (ct + defaultAnnoDuration)) 0
               (if d \<noteq> 0 then d else fl (ct + defaultAnnoDuration)) = d"
    using x by (simp add: clamp_def defaultAnnoDuration_def)
qed

lemma addAnnotationAt_created:
  assumes free: "find (\<lambda>a. triangleIdOf a = triangleKey (clamp xNorm 0 1) (clamp yNorm 0 1) ''#c0c5ce'')
             (st_annotations st) = None"
    and ct: "0 \<le> st_currentTime st" "st_currentTime st \<le> 2 ^ 32"
  shows "\<exists>r. st_annotations (addAnnotationAt uuid xNorm yNorm st) = st_annotations st @ [r] \<and>
           anno_id r = uuid \<and> anno_start r = st_currentTime st \<and>
           (anno_start r < anno_end r \<longleftrightarrow>
              st_duration st = 0 \<or> st_currentTime st < st_duration st) \<and>
           (st_duration st \<noteq> 0 \<and> st_duration st \<le> st_currentTime st \<longrightarrow>
              anno_end r = st_duration st)"
proof -
  let ?e = "clamp (fl (st_currentTime st + defaultAnnoDuration)) 0
              (if st_duration st \<noteq> 0 then st_duration st
               else fl (st_currentTime st + defaultAnnoDuration))"
  let ?r = "\<lparr> anno_id = uuid, anno_x = clamp xNorm 0 1, anno_y = clamp yNorm 0 1,
             anno_size = 3 / 100, anno_color = ''#c0c5ce'', anno_strokeWidth = 5,
             anno_start = st_currentTime st, anno_end = ?e, anno_label = None \<rparr>"
  have a: "st_annotations (addAnnotationAt uuid xNorm yNorm st) = st_annotations st @ [?r]"
    unfolding addAnnotationAt_fresh[OF free] by simp
  have b: "anno_id ?r = uuid" "anno_start ?r = st_currentTime st" by simp_all
  have c: "anno_start ?r < anno_end ?r \<longleftrightarrow>
              st_duration st = 0 \<or> st_currentTime st < st_duration st"
    using created_end(1)[OF ct, of "st_duration st"] by simp
  have d: "st_duration st \<noteq> 0 \<and> st_duration st \<le> st_currentTime st \<longrightarrow>
              anno_end ?r = st_duration st"
    using created_end(2)[OF ct, of "st_duration st"] by simp
  show ?thesis
    by (rule exI[of _ ?r]) (rule conjI[OF a conjI[OF b(1) conjI[OF b(2) conjI[OF c d]]]])
qed

text \<open>
  \<open>updateAnnoTime\<close> checks nothing: the records it leaves have their end after their
  start exactly when the bounds it is given, with the present bound where none is
  given, are so for the records with the identifier, and the other records were so.
\<close>

lemma updateAnnoTime_order:
  "(\<forall>a \<in> set (st_annotations (updateAnnoTime ident nextStart nextEnd st)).
      anno_start a < anno_end a) \<longleftrightarrow>
   (\<forall>a \<in> set (st_annotations st).
      if anno_id a = ident
      then (case nextStart of Some v \<Rightarrow> v | None \<Rightarrow> anno_start a)
             < (case nextEnd of Some v \<Rightarrow> v | None \<Rightarrow> anno_end a)
      else anno_start a < anno_end a)"
proof -
  define f where "f = (\<lambda>a. if anno_id a = ident then retime nextStart nextEnd a else a)"
  have u: "st_annotations (updateAnnoTime ident nextStart nextEnd st) = map f (st_annotations st)"
    by (simp add: updateAnnoTime_def f_def)
  have e: "anno_start (f a) < anno_end (f a) \<longleftrightarrow>
      (if anno_id a = ident
       then (case nextStart of Some v \<Rightarrow> v | None \<Rightarrow> anno_start a)
              < (case nextEnd of Some v \<Rightarrow> v | None \<Rightarrow> anno_end a)
       else anno_start a < anno_end a)" for a
    by (simp add: f_def retime_def)
  have "(\<forall>a \<in> set (map f (st_annotations st)). anno_start a < anno_end a) \<longleftrightarrow>
        (\<forall>a \<in> set (st_annotations st). anno_start (f a) < anno_end (f a))"
    by simp
  then show ?thesis unfolding u e .
qed

text \<open>
  The bounds that the three gestures on an annotation pass to \<open>updateAnnoTime\<close>, with
  the default minimum length: a left handle stops below \<open>origEnd\<close>, a right handle of a
  record that starts inside the media stops above \<open>origStart\<close>, and a move of a record
  at least \<open>2^-16\<close> seconds long keeps the end after the start.
\<close>

lemma left_limit_below:
  assumes "0 \<le> oe" "oe \<le> 2 ^ 32"
  shows "clamp v 0 (fl (oe - tenth)) < oe"
proof -
  have "\<bar>oe - tenth\<bar> \<le> 2 ^ 34" using assms tenth_bounds by simp
  from fl_close[OF this] have "fl (oe - tenth) < oe" using tenth_bounds(1) by simp
  moreover have "clamp v 0 (fl (oe - tenth)) \<le> fl (oe - tenth)" by (simp add: clamp_def)
  ultimately show ?thesis by linarith
qed

lemma right_limit_above:
  assumes "0 \<le> os" "os \<le> 2 ^ 32" "os < d"
  shows "os < clamp v (fl (os + tenth)) d"
proof -
  have "\<bar>os + tenth\<bar> \<le> 2 ^ 34" using assms tenth_bounds by simp
  from fl_close[OF this] have "os < fl (os + tenth)" using tenth_bounds(1) by simp
  then show ?thesis using assms(3) by (simp add: clamp_def)
qed

lemma moved_end_above:
  assumes d: "0 \<le> d" "d \<le> 2 ^ 32" and len: "1 / 2 ^ 16 \<le> oe - os" "oe - os \<le> 2 ^ 32"
  shows "clamp v 0 (max 0 (fl (d - fl (oe - os))))
           < fl (clamp v 0 (max 0 (fl (d - fl (oe - os)))) + fl (oe - os))"
proof -
  let ?len = "fl (oe - os)"
  let ?hi = "max 0 (fl (d - ?len))"
  let ?ns = "clamp v 0 ?hi"
  have "\<bar>oe - os\<bar> \<le> 2 ^ 34" using len by simp
  from fl_close[OF this] have l: "1 / 2 ^ 17 \<le> ?len" "?len \<le> 2 ^ 33" using len by simp_all
  have "\<bar>d - ?len\<bar> \<le> 2 ^ 34" using d l by simp
  from fl_close[OF this] have "fl (d - ?len) \<le> 2 ^ 33" using d l by simp
  then have hi: "0 \<le> ?hi" "?hi \<le> 2 ^ 33" by simp_all
  have ns: "0 \<le> ?ns" "?ns \<le> 2 ^ 33" using hi by (simp_all add: clamp_def)
  have "\<bar>?ns + ?len\<bar> \<le> 2 ^ 34" using ns l by simp
  from fl_close[OF this] show ?thesis using l(1) by simp
qed

lemma resize_left_keeps_order:
  assumes ev: "events \<noteq> []" and oe: "0 \<le> oe" "oe \<le> 2 ^ 32"
    and inv: "\<forall>a \<in> set (st_annotations st). anno_start a < anno_end a"
    and rec: "\<forall>a \<in> set (st_annotations st). anno_id a = ident \<longrightarrow> anno_end a = oe"
  shows "\<forall>a \<in> set (st_annotations (gesture defaultMinClipLen (ResizeLeft ident sx os oe) events st)).
           anno_start a < anno_end a"
proof (intro ballI)
  fix a
  let ?ns = "clamp (fl (os + dragDelta (snd (last events)) sx (fst (last events)) (st_duration st))) 0
               (fl (oe - defaultMinClipLen))"
  assume "a \<in> set (st_annotations (gesture defaultMinClipLen (ResizeLeft ident sx os oe) events st))"
  then have "a \<in> set (map (\<lambda>a. if anno_id a = ident then a\<lparr> anno_start := ?ns \<rparr> else a)
                         (st_annotations st))"
    unfolding gesture_resize_left[OF ev] by simp
  then obtain a0 where a0: "a0 \<in> set (st_annotations st)"
    "a = (if anno_id a0 = ident then a0\<lparr> anno_start := ?ns \<rparr> else a0)"
    unfolding set_map by (elim imageE)
  show "anno_start a < anno_end a"
  proof (cases "anno_id a0 = ident")
    case True
    have "anno_end a0 = oe" using rec a0(1) True by blast
    moreover have "?ns < oe" unfolding defaultMinClipLen_def using oe by (rule left_limit_below)
    ultimately show ?thesis using a0(2) True by simp
  next
    case False
    have "anno_start a0 < anno_end a0" using inv a0(1) by blast
    then show ?thesis using a0(2) False by simp
  qed
qed

lemma resize_right_keeps_order:
  assumes ev: "events \<noteq> []" and os: "0 \<le> os" "os \<le> 2 ^ 32" "os < st_duration st"
    and inv: "\<forall>a \<in> set (st_annotations st). anno_start a < anno_end a"
    and rec: "\<forall>a \<in> set (st_annotations st). anno_id a = ident \<longrightarrow> anno_start a = os"
  shows "\<forall>a \<in> set (st_annotations (gesture defaultMinClipLen (ResizeRight ident sx os oe) events st)).
           anno_start a < anno_end a"
proof (intro ballI)
  fix a
  let ?ne = "clamp (fl (oe + dragDelta (snd (last events)) sx (fst (last events)) (st_duration st)))
               (fl (os + defaultMinClipLen)) (st_duration st)"
  assume "a \<in> set (st_annotations (gesture defaultMinClipLen (ResizeRight ident sx os oe) events st))"
  then have "a \<in> set (map (\<lambda>a. if anno_id a = ident then a\<lparr> anno_end := ?ne \<rparr> else a)
                         (st_annotations st))"
    unfolding gesture_resize_right[OF ev] by simp
  then obtain a0 where a0: "a0 \<in> set (st_annotations st)"
    "a = (if anno_id a0 = ident then a0\<lparr> anno_end := ?ne \<rparr> else a0)"
    unfolding set_map by (elim imageE)
  show "anno_start a < anno_end a"
  proof (cases "anno_id a0 = ident")
    case True
    have "anno_start a0 = os" using rec a0(1) True by blast
    moreover have "os < ?ne" unfolding defaultMinClipLen_def using os by (rule right_limit_above)
    ultimately show ?thesis using a0(2) True by simp
  next
    case False
    have "anno_start a0 < anno_end a0" using inv a0(1) by blast
    then show ?thesis using a0(2) False by simp
  qed
qed

lemma drag_move_keeps_order:
  assumes ev: "events \<noteq> []" and d: "0 \<le> st_duration st" "st_duration st \<le> 2 ^ 32"
    and len: "1 / 2 ^ 16 \<le> oe - os" "oe - os \<le> 2 ^ 32"
    and inv: "\<forall>a \<in> set (st_annotations st). anno_start a < anno_end a"
  shows "\<forall>a \<in> set (st_annotations (gesture defaultMinClipLen (DragMove ident sx os oe) events st)).
           anno_start a < anno_end a"
proof (intro ballI)
  fix a
  let ?ns = "clamp (fl (os + dragDelta (snd (last events)) sx (fst (last events)) (st_duration st))) 0
               (max 0 (fl (st_duration st - fl (oe - os))))"
  assume "a \<in> set (st_annotations (gesture defaultMinClipLen (DragMove ident sx os oe) events st))"
  then have "a \<in> set (map (\<lambda>a. if anno_id a = ident
                                 then a\<lparr> anno_start := ?ns, anno_end := fl (?ns + fl (oe - os)) \<rparr>
                                 else a)
                         (st_annotations st))"
    unfolding gesture_drag_move[OF ev] by simp
  then obtain a0 where a0: "a0 \<in> set (st_annotations st)"
    "a = (if anno_id a0 = ident
          then a0\<lparr> anno_start := ?ns, anno_end := fl (?ns + fl (oe - os)) \<rparr> else a0)"
    unfolding set_map by (elim imageE)
  show "anno_start a < anno_end a"
  proof (cases "anno_id a0 = ident")
    case True
    have "?ns < fl (?ns + fl (oe - os))" using d len by (rule moved_end_above)
    then show ?thesis using a0(2) True by simp
  next
    case False
    have "anno_start a0 < anno_end a0" using inv a0(1) by blast
    then show ?thesis using a0(2) False by simp
  qed
qed

text \<open>
  C3, as the code has it. Creation: a click on a free position with the playhead in
  \<open>[0, 2^32]\<close> appends one record that starts at the playhead; its end is after its
  start exactly when no duration is known (duration 0) or the playhead is before the
  end of the media, and with the playhead at or after the end of the media its end is
  the duration, so not after its start. Mutation: \<open>updateAnnoTime\<close> checks nothing, the
  records it leaves are in order exactly when the bounds it is given are; it is called
  by the timeline's gestures only, and after any number of moves of a gesture with the
  default minimum length the records are the ones at pointer-down with the bounds of
  the last pointer position, and all have their end after their start: for a left
  handle of a record ending in \<open>[0, 2^32]\<close>, for a right handle of a record starting in
  \<open>[0, 2^32]\<close> before the end of the media, and for a move of a record between
  \<open>2^-16\<close> and \<open>2^32\<close> seconds long in a media of at most \<open>2^32\<close> seconds.
\<close>

theorem annotation_end_after_start:
  "(find (\<lambda>a. triangleIdOf a = triangleKey (clamp xNorm 0 1) (clamp yNorm 0 1) ''#c0c5ce'')
      (st_annotations st) = None \<and>
    0 \<le> st_currentTime st \<and> st_currentTime st \<le> 2 ^ 32 \<longrightarrow>
      (\<exists>r. st_annotations (addAnnotationAt uuid xNorm yNorm st) = st_annotations st @ [r] \<and>
         anno_id r = uuid \<and> anno_start r = st_currentTime st \<and>
         (anno_start r < anno_end r \<longleftrightarrow>
            st_duration st = 0 \<or> st_currentTime st < st_duration st) \<and>
         (st_duration st \<noteq> 0 \<and> st_duration st \<le> st_currentTime st \<longrightarrow>
            anno_end r = st_duration st))) \<and>
   ((\<forall>a \<in> set (st_annotations (updateAnnoTime ident nextStart nextEnd st)).
       anno_start a < anno_end a) \<longleftrightarrow>
    (\<forall>a \<in> set (st_annotations st).
       if anno_id a = ident
       then (case nextStart of Some v \<Rightarrow> v | None \<Rightarrow> anno_start a)
              < (case nextEnd of Some v \<Rightarrow> v | None \<Rightarrow> anno_end a)
       else anno_start a < anno_end a)) \<and>
   (events \<noteq> [] \<and> 0 \<le> oe \<and> oe \<le> 2 ^ 32 \<and>
    (\<forall>a \<in> set (st_annotations st). anno_start a < anno_end a) \<and>
    (\<forall>a \<in> set (st_annotations st). anno_id a = ident \<longrightarrow> anno_end a = oe) \<longrightarrow>
      gesture defaultMinClipLen (ResizeLeft ident sx os oe) events st =
        st\<lparr> st_annotations :=
              map (\<lambda>a. if anno_id a = ident
                       then a\<lparr> anno_start :=
                              clamp (fl (os + dragDelta (snd (last events)) sx (fst (last events))
                                            (st_duration st))) 0 (fl (oe - defaultMinClipLen)) \<rparr>
                       else a)
                (st_annotations st) \<rparr> \<and>
      (\<forall>a \<in> set (st_annotations (gesture defaultMinClipLen (ResizeLeft ident sx os oe) events st)).
         anno_start a < anno_end a)) \<and>
   (events \<noteq> [] \<and> 0 \<le> os \<and> os \<le> 2 ^ 32 \<and> os < st_duration st \<and>
    (\<forall>a \<in> set (st_annotations st). anno_start a < anno_end a) \<and>
    (\<forall>a \<in> set (st_annotations st). anno_id a = ident \<longrightarrow> anno_start a = os) \<longrightarrow>
      gesture defaultMinClipLen (ResizeRight ident sx os oe) events st =
        st\<lparr> st_annotations :=
              map (\<lambda>a. if anno_id a = ident
                       then a\<lparr> anno_end :=
                              clamp (fl (oe + dragDelta (snd (last events)) sx (fst (last events))
                                            (st_duration st)))
                                (fl (os + defaultMinClipLen)) (st_duration st) \<rparr>
                       else a)
                (st_annotations st) \<rparr> \<and>
      (\<forall>a \<in> set (st_annotations (gesture defaultMinClipLen (ResizeRight ident sx os oe) events st)).
         anno_start a < anno_end a)) \<and>
   (events \<noteq> [] \<and> 0 \<le> st_duration st \<and> st_duration st \<le> 2 ^ 32 \<and>
    1 / 2 ^ 16 \<le> oe - os \<and> oe - os \<le> 2 ^ 32 \<and>
    (\<forall>a \<in> set (st_annotations st). anno_start a < anno_end a) \<longrightarrow>
      gesture defaultMinClipLen (DragMove ident sx os oe) events st =
        st\<lparr> st_annotations :=
              map (\<lambda>a. if anno_id a = ident
                       then a\<lparr> anno_start :=
                                clamp (fl (os + dragDelta (snd (last events)) sx (fst (last events))
                                              (st_duration st))) 0
                                  (max 0 (fl (st_duration st - fl (oe - os)))),
                              anno_end :=
                                fl (clamp (fl (os + dragDelta (snd (last events)) sx (fst (last events))
                                                  (st_duration st))) 0
                                      (max 0 (fl (st_duration st - fl (oe - os))))
                                    + fl (oe - os)) \<rparr>
                       else a)
                (st_annotations st) \<rparr> \<and>
      (\<forall>a \<in> set (st_annotations (gesture defaultMinClipLen (DragMove ident sx os oe) events st)).
         anno_start a < anno_end a))"
proof (intro conjI impI)
  {
    assume h: "find (\<lambda>a. triangleIdOf a = triangleKey (clamp xNorm 0 1) (clamp yNorm 0 1) ''#c0c5ce'')
        (st_annotations st) = None \<and>
      0 \<le> st_currentTime st \<and> st_currentTime st \<le> 2 ^ 32"
    show "\<exists>r. st_annotations (addAnnotationAt uuid xNorm yNorm st) = st_annotations st @ [r] \<and>
         anno_id r = uuid \<and> anno_start r = st_currentTime st \<and>
         (anno_start r < anno_end r \<longleftrightarrow>
            st_duration st = 0 \<or> st_currentTime st < st_duration st) \<and>
         (st_duration st \<noteq> 0 \<and> st_duration st \<le> st_currentTime st \<longrightarrow>
            anno_end r = st_duration st)"
      by (rule addAnnotationAt_created[OF h[THEN conjunct1] h[THEN conjunct2, THEN conjunct1]
            h[THEN conjunct2, THEN conjunct2]])
  }
  show "(\<forall>a \<in> set (st_annotations (updateAnnoTime ident nextStart nextEnd st)).
       anno_start a < anno_end a) \<longleftrightarrow>
    (\<forall>a \<in> set (st_annotations st).
       if anno_id a = ident
       then (case nextStart of Some v \<Rightarrow> v | None \<Rightarrow> anno_start a)
              < (case nextEnd of Some v \<Rightarrow> v | None \<Rightarrow> anno_end a)
       else anno_start a < anno_end a)"
    by (rule updateAnnoTime_order)
  {
    assume h: "events \<noteq> [] \<and> 0 \<le> oe \<and> oe \<le> 2 ^ 32 \<and>
      (\<forall>a \<in> set (st_annotations st). anno_start a < anno_end a) \<and>
      (\<forall>a \<in> set (st_annotations st). anno_id a = ident \<longrightarrow> anno_end a = oe)"
    note ev = h[THEN conjunct1]
    show "gesture defaultMinClipLen (ResizeLeft ident sx os oe) events st =
        st\<lparr> st_annotations :=
              map (\<lambda>a. if anno_id a = ident
                       then a\<lparr> anno_start :=
                              clamp (fl (os + dragDelta (snd (last events)) sx (fst (last events))
                                            (st_duration st))) 0 (fl (oe - defaultMinClipLen)) \<rparr>
                       else a)
                (st_annotations st) \<rparr>"
      by (rule gesture_resize_left[OF ev])
    show "\<forall>a \<in> set (st_annotations (gesture defaultMinClipLen (ResizeLeft ident sx os oe) events st)).
         anno_start a < anno_end a"
      by (rule resize_left_keeps_order[OF ev h[THEN conjunct2, THEN conjunct1]
            h[THEN conjunct2, THEN conjunct2, THEN conjunct1]
            h[THEN conjunct2, THEN conjunct2, THEN conjunct2, THEN conjunct1]
            h[THEN conjunct2, THEN conjunct2, THEN conjunct2, THEN conjunct2]])
  }
  {
    assume h: "events \<noteq> [] \<and> 0 \<le> os \<and> os \<le> 2 ^ 32 \<and> os < st_duration st \<and>
      (\<forall>a \<in> set (st_annotations st). anno_start a < anno_end a) \<and>
      (\<forall>a \<in> set (st_annotations st). anno_id a = ident \<longrightarrow> anno_start a = os)"
    note ev = h[THEN conjunct1]
    show "gesture defaultMinClipLen (ResizeRight ident sx os oe) events st =
        st\<lparr> st_annotations :=
              map (\<lambda>a. if anno_id a = ident
                       then a\<lparr> anno_end :=
                              clamp (fl (oe + dragDelta (snd (last events)) sx (fst (last events))
                                            (st_duration st)))
                                (fl (os + defaultMinClipLen)) (st_duration st) \<rparr>
                       else a)
                (st_annotations st) \<rparr>"
      by (rule gesture_resize_right[OF ev])
    show "\<forall>a \<in> set (st_annotations (gesture defaultMinClipLen (ResizeRight ident sx os oe) events st)).
         anno_start a < anno_end a"
      by (rule resize_right_keeps_order[OF ev h[THEN conjunct2, THEN conjunct1]
            h[THEN conjunct2, THEN conjunct2, THEN conjunct1]
            h[THEN conjunct2, THEN conjunct2, THEN conjunct2, THEN conjunct1]
            h[THEN conjunct2, THEN conjunct2, THEN conjunct2, THEN conjunct2, THEN conjunct1]
            h[THEN conjunct2, THEN conjunct2, THEN conjunct2, THEN conjunct2, THEN conjunct2]])
  }
  {
    assume h: "events \<noteq> [] \<and> 0 \<le> st_duration st \<and> st_duration st \<le> 2 ^ 32 \<and>
      1 / 2 ^ 16 \<le> oe - os \<and> oe - os \<le> 2 ^ 32 \<and>
      (\<forall>a \<in> set (st_annotations st). anno_start a < anno_end a)"
    note ev = h[THEN conjunct1]
    show "gesture defaultMinClipLen (DragMove ident sx os oe) events st =
        st\<lparr> st_annotations :=
              map (\<lambda>a. if anno_id a = ident
                       then a\<lparr> anno_start :=
                                clamp (fl (os + dragDelta (snd (last events)) sx (fst (last events))
                                              (st_duration st))) 0
                                  (max 0 (fl (st_duration st - fl (oe - os)))),
                              anno_end :=
                                fl (clamp (fl (os + dragDelta (snd (last events)) sx (fst (last events))
                                                  (st_duration st))) 0
                                      (max 0 (fl (st_duration st - fl (oe - os))))
                                    + fl (oe - os)) \<rparr>
                       else a)
                (st_annotations st) \<rparr>"
      by (rule gesture_drag_move[OF ev])
    show "\<forall>a \<in> set (st_annotations (gesture defaultMinClipLen (DragMove ident sx os oe) events st)).
         anno_start a < anno_end a"
      by (rule drag_move_keeps_order[OF ev h[THEN conjunct2, THEN conjunct1]
            h[THEN conjunct2, THEN conjunct2, THEN conjunct1]
            h[THEN conjunct2, THEN conjunct2, THEN conjunct2, THEN conjunct1]
            h[THEN conjunct2, THEN conjunct2, THEN conjunct2, THEN conjunct2, THEN conjunct1]
            h[THEN conjunct2, THEN conjunct2, THEN conjunct2, THEN conjunct2, THEN conjunct2]])
  }
qed

text \<open>
  With the playhead at the end of the 10 second video, a click on free space creates a
  record that starts and ends at 10.
\<close>

theorem annotation_end_after_start_counterexample:
  "map (\<lambda>a. (anno_start a, anno_end a))
     (st_annotations (addAnnotationAt ''fresh'' (1 / 4) (1 / 4) (exampleState\<lparr> st_currentTime := 10 \<rparr>)))
     = [(0, 3), (1, 4), (10, 10)]"
  unfolding addAnnotationAt_fresh[OF quarter_fresh]
  by (simp add: exampleState_def clamp_def defaultAnnoDuration_def olderTriangle_def
      newerTriangle_def)

text \<open>
  In the example state, with the playhead at 2 of 10 seconds: a click on free space, and
  two moves of each gesture on the older example annotation (0 to 3 seconds), leave every
  record with its end after its start; so does the retiming of its start to 1.
\<close>

theorem annotation_end_after_start_witness:
  "(find (\<lambda>a. triangleIdOf a = triangleKey (clamp (1 / 4) 0 1) (clamp (1 / 4) 0 1) ''#c0c5ce'')
      (st_annotations exampleState) = None \<and>
    0 \<le> st_currentTime exampleState \<and> st_currentTime exampleState \<le> 2 ^ 32 \<and>
    st_currentTime exampleState < st_duration exampleState) \<and>
   list_all (\<lambda>a. anno_start a < anno_end a) (st_annotations exampleState) \<and>
   list_all (\<lambda>a. anno_id a = ''older'' \<longrightarrow> anno_start a = 0 \<and> anno_end a = 3)
     (st_annotations exampleState) \<and>
   list_all (\<lambda>a. anno_start a < anno_end a)
     (st_annotations (addAnnotationAt ''fresh'' (1 / 4) (1 / 4) exampleState)) \<and>
   list_all (\<lambda>a. anno_start a < anno_end a)
     (st_annotations (updateAnnoTime ''older'' (Some 1) None exampleState)) \<and>
   list_all (\<lambda>a. anno_start a < anno_end a)
     (st_annotations (gesture defaultMinClipLen (ResizeLeft ''older'' 50 0 3)
        [(exampleRect, 1000), (exampleRect, - 1000)] exampleState)) \<and>
   list_all (\<lambda>a. anno_start a < anno_end a)
     (st_annotations (gesture defaultMinClipLen (ResizeRight ''older'' 50 0 3)
        [(exampleRect, 1000), (exampleRect, - 1000)] exampleState)) \<and>
   list_all (\<lambda>a. anno_start a < anno_end a)
     (st_annotations (gesture defaultMinClipLen (DragMove ''older'' 50 0 3)
        [(exampleRect, 1000), (exampleRect, - 1000)] exampleState))"
proof -
  let ?evs = "[(exampleRect, 1000 :: real), (exampleRect, - 1000)]"
  note t = annotation_end_after_start[where st = exampleState and uuid = "''fresh''"
      and xNorm = "1 / 4" and yNorm = "1 / 4" and ident = "''older''" and nextStart = "Some 1"
      and nextEnd = None and events = ?evs and os = 0 and oe = 3 and sx = 50]
  have free: "find (\<lambda>a. triangleIdOf a = triangleKey (clamp (1 / 4) 0 1) (clamp (1 / 4) 0 1) ''#c0c5ce'')
      (st_annotations exampleState) = None"
    using quarter_fresh[of 2] by (simp add: exampleState_def)
  have ct: "0 \<le> st_currentTime exampleState" "st_currentTime exampleState \<le> 2 ^ 32"
    "st_currentTime exampleState < st_duration exampleState"
    by (simp_all add: exampleState_def)
  have d: "0 \<le> st_duration exampleState" "st_duration exampleState \<le> 2 ^ 32"
    "(0 :: real) < st_duration exampleState"
    by (simp_all add: exampleState_def)
  have i: "list_all (\<lambda>a. anno_start a < anno_end a) (st_annotations exampleState)"
    by (simp add: exampleState_def olderTriangle_def newerTriangle_def)
  have s: "list_all (\<lambda>a. anno_id a = ''older'' \<longrightarrow> anno_start a = 0 \<and> anno_end a = 3)
     (st_annotations exampleState)"
    by (simp add: exampleState_def olderTriangle_def newerTriangle_def)
  have inv: "\<forall>a \<in> set (st_annotations exampleState). anno_start a < anno_end a"
    using i unfolding list_all_iff .
  have se: "\<forall>a \<in> set (st_annotations exampleState). anno_id a = ''older'' \<longrightarrow> anno_end a = 3"
    and ss: "\<forall>a \<in> set (st_annotations exampleState). anno_id a = ''older'' \<longrightarrow> anno_start a = 0"
    by (simp_all add: exampleState_def olderTriangle_def newerTriangle_def)
  have ev: "?evs \<noteq> []" by simp
  have n: "(0 :: real) \<le> 3" "(3 :: real) \<le> 2 ^ 32" "(0 :: real) \<le> 0" "(0 :: real) \<le> 2 ^ 32"
    "(1 :: real) / 2 ^ 16 \<le> 3 - 0" "(3 :: real) - 0 \<le> 2 ^ 32" by simp_all
  from t[THEN conjunct1, THEN mp, OF conjI[OF free conjI[OF ct(1) ct(2)]]] obtain r where
    r: "st_annotations (addAnnotationAt ''fresh'' (1 / 4) (1 / 4) exampleState)
          = st_annotations exampleState @ [r]"
       "anno_start r < anno_end r \<longleftrightarrow>
          st_duration exampleState = 0 \<or> st_currentTime exampleState < st_duration exampleState"
    by (elim exE conjE)
  have "anno_start r < anno_end r" using r(2) ct(3) by simp
  then have a: "list_all (\<lambda>a. anno_start a < anno_end a)
     (st_annotations (addAnnotationAt ''fresh'' (1 / 4) (1 / 4) exampleState))"
    unfolding r(1) using i by simp
  have "\<forall>a \<in> set (st_annotations exampleState).
       if anno_id a = ''older''
       then (case Some 1 of Some v \<Rightarrow> v | None \<Rightarrow> anno_start a)
              < (case None of Some v \<Rightarrow> v | None \<Rightarrow> anno_end a)
       else anno_start a < anno_end a"
    by (simp add: exampleState_def olderTriangle_def newerTriangle_def)
  then have "\<forall>a \<in> set (st_annotations (updateAnnoTime ''older'' (Some 1) None exampleState)).
       anno_start a < anno_end a"
    using t[THEN conjunct2, THEN conjunct1] by (rule iffD2[rotated])
  then have u: "list_all (\<lambda>a. anno_start a < anno_end a)
     (st_annotations (updateAnnoTime ''older'' (Some 1) None exampleState))"
    unfolding list_all_iff .
  have l: "list_all (\<lambda>a. anno_start a < anno_end a)
     (st_annotations (gesture defaultMinClipLen (ResizeLeft ''older'' 50 0 3) ?evs exampleState))"
    unfolding list_all_iff
    by (rule t[THEN conjunct2, THEN conjunct2, THEN conjunct1, THEN mp, THEN conjunct2,
          OF conjI[OF ev conjI[OF n(1) conjI[OF n(2) conjI[OF inv se]]]]])
  have rr: "list_all (\<lambda>a. anno_start a < anno_end a)
     (st_annotations (gesture defaultMinClipLen (ResizeRight ''older'' 50 0 3) ?evs exampleState))"
    unfolding list_all_iff
    by (rule t[THEN conjunct2, THEN conjunct2, THEN conjunct2, THEN conjunct1, THEN mp,
          THEN conjunct2,
          OF conjI[OF ev conjI[OF n(3) conjI[OF n(4) conjI[OF d(3) conjI[OF inv ss]]]]]])
  have m: "list_all (\<lambda>a. anno_start a < anno_end a)
     (st_annotations (gesture defaultMinClipLen (DragMove ''older'' 50 0 3) ?evs exampleState))"
    unfolding list_all_iff
    by (rule t[THEN conjunct2, THEN conjunct2, THEN conjunct2, THEN conjunct2, THEN mp,
          THEN conjunct2,
          OF conjI[OF ev conjI[OF d(1) conjI[OF d(2) conjI[OF n(5) conjI[OF n(6) inv]]]]]])
  show ?thesis
    by (rule conjI[OF conjI[OF free conjI[OF ct(1) conjI[OF ct(2) ct(3)]]]
          conjI[OF i conjI[OF s conjI[OF a conjI[OF u conjI[OF l conjI[OF rr m]]]]]]])
qed

section \<open>Sampling: proofs\<close>































text \<open>
  The loop over exact arithmetic, from which the model of a whole run takes its
  timestamps: with a positive step it exits, after
  \<open>\<lfloor>(end + 1e-6 - t) / step\<rfloor> + 1\<close> iterations when it is entered at all, and the
  i-th value pushed is \<open>min (t + i * step) end\<close>.
\<close>

lemma timesLoopExact_closed:
  assumes step: "0 < step"
  shows "timesLoopExact t e step acc =
     Some (acc @ map (\<lambda>i. min (t + real i * step) e)
             [0..<(if t \<le> e + 1 / 10 ^ 6 then nat \<lfloor>(e + 1 / 10 ^ 6 - t) / step\<rfloor> + 1 else 0)])"
proof (induction n \<equiv> "nat \<lfloor>(e + 1 / 10 ^ 6 - t) / step\<rfloor>" arbitrary: t acc)
  case 0
  show ?case
  proof (cases "t \<le> e + 1 / 10 ^ 6")
    case False
    then show ?thesis by (subst timesLoopExact.simps) simp
  next
    case True
    then have x0: "0 \<le> (e + 1 / 10 ^ 6 - t) / step" using step by simp
    from 0 have "\<lfloor>(e + 1 / 10 ^ 6 - t) / step\<rfloor> \<le> 0" by simp
    then have "(e + 1 / 10 ^ 6 - t) / step < 1" by linarith
    then have "e + 1 / 10 ^ 6 - t < step" using step by (simp add: field_simps)
    then have out: "\<not> t + step \<le> e + 1 / 10 ^ 6" by simp
    have "timesLoopExact t e step acc = timesLoopExact (t + step) e step (acc @ [min t e])"
      using True by (subst timesLoopExact.simps) simp
    also have "\<dots> = Some (acc @ [min t e])"
      using out by (subst timesLoopExact.simps) simp
    finally show ?thesis using True 0 by simp
  qed
next
  case (Suc k)
  let ?x = "(e + 1 / 10 ^ 6 - t) / step"
  from Suc(2) have fl: "\<lfloor>?x\<rfloor> = int k + 1" by linarith
  then have "1 \<le> ?x" by linarith
  then have "step \<le> e + 1 / 10 ^ 6 - t" using step by (simp add: field_simps)
  then have inn: "t + step \<le> e + 1 / 10 ^ 6" and inn0: "t \<le> e + 1 / 10 ^ 6"
    using step by simp_all
  have "(e + 1 / 10 ^ 6 - (t + step)) / step = ?x - 1"
    using step by (simp add: field_simps)
  then have fl': "\<lfloor>(e + 1 / 10 ^ 6 - (t + step)) / step\<rfloor> = int k"
    using fl by simp
  then have k: "k = nat \<lfloor>(e + 1 / 10 ^ 6 - (t + step)) / step\<rfloor>" by simp
  have "timesLoopExact t e step acc = timesLoopExact (t + step) e step (acc @ [min t e])"
    using inn0 by (subst timesLoopExact.simps) simp
  also have "\<dots> = Some ((acc @ [min t e]) @ map (\<lambda>i. min (t + step + real i * step) e) [0..<k + 1])"
    using Suc(1)[OF k, of "acc @ [min t e]"] inn fl' by simp
  also have "(acc @ [min t e]) @ map (\<lambda>i. min (t + step + real i * step) e) [0..<k + 1]
             = acc @ map (\<lambda>i. min (t + real i * step) e) [0..<Suc k + 1]"
  proof -
    have "map (\<lambda>i. min (t + real i * step) e) [0..<Suc (k + 1)]
          = min (t + real 0 * step) e # map (\<lambda>i. min (t + real (Suc i) * step) e) [0..<k + 1]"
      by (rule map_upt_Suc)
    moreover have "(\<lambda>i. min (t + real (Suc i) * step) e) = (\<lambda>i. min (t + step + real i * step) e)"
      by (rule ext) (simp add: algebra_simps)
    moreover have "min (t + real 0 * step) e = min t e" by simp
    ultimately have "map (\<lambda>i. min (t + real i * step) e) [0..<Suc (k + 1)]
          = min t e # map (\<lambda>i. min (t + step + real i * step) e) [0..<k + 1]"
      by (simp only:)
    then show ?thesis by (simp only: Suc_eq_plus1[symmetric] append_assoc append_Cons append_Nil)
  qed
  finally have r: "timesLoopExact t e step acc =
      Some (acc @ map (\<lambda>i. min (t + real i * step) e) [0..<Suc k + 1])" .
  have n: "(if t \<le> e + 1 / 10 ^ 6 then nat \<lfloor>(e + 1 / 10 ^ 6 - t) / step\<rfloor> + 1 else 0) = Suc k + 1"
    using inn0 fl by simp
  show ?case unfolding n by (rule r)
qed

lemma step_positive: "0 < 1 / max (1 / 10) (samplingHz :: real)"
  by (simp add: max_def)

lemma sampleTimesExact_closed:
  "sampleTimesExact selection duration samplingHz =
     Some (map (\<lambda>i. min (clamp (fst selection) 0 duration + real i * (1 / max (1 / 10) samplingHz))
                      (clamp (snd selection) 0 duration))
             [0..<(if clamp (fst selection) 0 duration \<le> clamp (snd selection) 0 duration + 1 / 10 ^ 6
                   then nat \<lfloor>(clamp (snd selection) 0 duration + 1 / 10 ^ 6
                               - clamp (fst selection) 0 duration) / (1 / max (1 / 10) samplingHz)\<rfloor> + 1
                   else 0)])"
  unfolding sampleTimesExact_def Let_def timesLoopExact_closed[OF step_positive] by simp

text \<open>
  The state a run ends in when no drawing context is handed out: the return in the
  \<^verbatim>\<open>if (!ctx)\<close> branch comes after the frames were released and the video was paused
  and set to rate 1.
\<close>

lemma sampleSelection_no_context_state:
  assumes "st_video st = Some video" "fst (st_videoSize st) \<noteq> 0" "st_duration st \<noteq> 0"
    and "st_selection st = Some selection" "fst selection < snd selection"
    and "\<not> env_ctxAvailable env"
  shows "sampleSelection env st =
    Some (st\<lparr> st_sampling := False, st_progress := 0,
              st_revokedUrls := st_revokedUrls st @ map frame_objectUrl (st_frames st),
              st_frames := [],
              st_video := Some (video\<lparr> video_paused := True, video_playbackRate := 1 \<rparr>),
              st_toasts := st_toasts st @ [canvasErrorToast] \<rparr>)"
  using assms
  unfolding sampleSelection_def sampleTimesExact_closed Let_def
  by (simp add: toast_def)

text \<open>
  C2, as the code has it. When no 2D drawing context can be acquired, the run returns
  with the "Canvas error" toast shown and sampling switched off, before any seek (the
  video's position is untouched) and with no frame captured; the previous frame set has
  by then been released: the frame set is empty and the object URLs of the previous
  frames are revoked. Annotations and selection are unchanged.
\<close>

theorem sampleSelection_no_context:
  assumes "st_video st = Some video" "fst (st_videoSize st) \<noteq> 0" "st_duration st \<noteq> 0"
    and "st_selection st = Some selection" "fst selection < snd selection"
    and "\<not> env_ctxAvailable env"
  shows "\<exists>st' video'. sampleSelection env st = Some st' \<and>
           st_toasts st' = st_toasts st @ [canvasErrorToast] \<and>
           st_sampling st' = False \<and>
           st_video st' = Some video' \<and> video_currentTime video' = video_currentTime video \<and>
           st_frames st' = [] \<and>
           st_revokedUrls st' = st_revokedUrls st @ map frame_objectUrl (st_frames st) \<and>
           st_annotations st' = st_annotations st \<and> st_selection st' = st_selection st"
  unfolding sampleSelection_no_context_state[OF assms] by simp

lemma example_guards:
  "st_video exampleState = Some exampleVideo" "fst (st_videoSize exampleState) \<noteq> 0"
  "st_duration exampleState \<noteq> 0" "st_selection exampleState = Some (0, 5 / 2)"
  "fst (0 :: real, 5 / 2 :: real) < snd (0 :: real, 5 / 2 :: real)"
  "\<not> env_ctxAvailable noContextEnv"
  by (simp_all add: exampleState_def noContextEnv_def)

text \<open>
  The example state holds one frame of an earlier run; after the run without a context
  the frame set is empty.
\<close>

theorem sampleSelection_no_context_counterexample:
  "st_frames exampleState = [exampleFrame] \<and>
   map_option st_frames (sampleSelection noContextEnv exampleState) = Some []"
  unfolding sampleSelection_no_context_state[OF example_guards]
  by (simp add: exampleState_def)

theorem sampleSelection_no_context_witness:
  "st_video exampleState = Some exampleVideo \<and> fst (st_videoSize exampleState) \<noteq> 0 \<and>
   st_duration exampleState \<noteq> 0 \<and> st_selection exampleState = Some (0, 5 / 2) \<and>
   fst (0 :: real, 5 / 2 :: real) < snd (0 :: real, 5 / 2 :: real) \<and>
   \<not> env_ctxAvailable noContextEnv \<and>
   (\<exists>st' video'. sampleSelection noContextEnv exampleState = Some st' \<and>
      st_toasts st' = [canvasErrorToast] \<and> st_sampling st' = False \<and>
      st_video st' = Some video' \<and> video_currentTime video' = 2 \<and>
      st_frames st' = [] \<and> st_revokedUrls st' = [''blob:earlier''] \<and>
      st_annotations st' = [olderTriangle, newerTriangle] \<and>
      st_selection st' = Some (0, 5 / 2))"
proof -
  from sampleSelection_no_context[OF example_guards] obtain st' video' where
    r: "sampleSelection noContextEnv exampleState = Some st'"
       "st_toasts st' = st_toasts exampleState @ [canvasErrorToast]"
       "st_sampling st' = False"
       "st_video st' = Some video'" "video_currentTime video' = video_currentTime exampleVideo"
       "st_frames st' = []"
       "st_revokedUrls st' = st_revokedUrls exampleState @ map frame_objectUrl (st_frames exampleState)"
       "st_annotations st' = st_annotations exampleState"
       "st_selection st' = st_selection exampleState"
    by (elim exE conjE)
  have c: "st_toasts st' = [canvasErrorToast]" "video_currentTime video' = 2"
    "st_revokedUrls st' = [''blob:earlier'']"
    "st_annotations st' = [olderTriangle, newerTriangle]" "st_selection st' = Some (0, 5 / 2)"
    using r by (simp_all add: exampleState_def exampleVideo_def exampleFrame_def)
  have "\<exists>st' video'. sampleSelection noContextEnv exampleState = Some st' \<and>
      st_toasts st' = [canvasErrorToast] \<and> st_sampling st' = False \<and>
      st_video st' = Some video' \<and> video_currentTime video' = 2 \<and>
      st_frames st' = [] \<and> st_revokedUrls st' = [''blob:earlier''] \<and>
      st_annotations st' = [olderTriangle, newerTriangle] \<and>
      st_selection st' = Some (0, 5 / 2)"
    by (intro exI[of _ st'] exI[of _ video'] conjI) (rule r c)+
  with example_guards show ?thesis by (intro conjI)
qed

text \<open>
  C4 at a failing run. The example video plays at rate 2. A run that gets no drawing
  context returns with the video paused at rate 1: the early return skips the restore
  that the end of a completed run performs.
\<close>

theorem sampleSelection_no_context_not_restored:
  "map_option video_playbackRate (st_video exampleState) = Some 2 \<and>
   map_option video_paused (st_video exampleState) = Some False \<and>
   map_option st_video (sampleSelection noContextEnv exampleState) =
     Some (Some (exampleVideo\<lparr> video_paused := True, video_playbackRate := 1 \<rparr>))"
  unfolding sampleSelection_no_context_state[OF example_guards]
  by (simp add: exampleState_def exampleVideo_def)

text \<open>
  The capture loop seeks and captures; it leaves the rate and the paused flag of the video
  alone and appends one frame per timestamp, in order.
\<close>

lemma captureLoop_frame:
  "captureLoop env anns burn cw ch n i tms (v, fs, p) = (v', fs', p') \<Longrightarrow>
     video_playbackRate v' = video_playbackRate v \<and> video_paused v' = video_paused v \<and>
     map frame_time fs' = map frame_time fs @ tms \<and>
     map frame_index fs' = map frame_index fs @ [i..<i + length tms]"
proof (induction tms arbitrary: i v fs p)
  case Nil
  then show ?case by simp
next
  case (Cons t tms)
  define v1 where "v1 = (if env_seekSettles env i then v\<lparr> video_currentTime := t \<rparr> else v)"
  define frame where "frame = \<lparr> frame_index = i, frame_time = t,
      frame_blob = \<lparr> raster_videoTime = video_currentTime v1, raster_width = cw, raster_height = ch,
        raster_strokes = (if burn then map (drawTriangleOnContext cw ch)
          (filter (\<lambda>a. t \<ge> anno_start a \<and> t \<le> anno_end a) anns) else []) \<rparr>,
      frame_objectUrl = env_objectUrl env i \<rparr>"
  have "captureLoop env anns burn cw ch n (i + 1) tms
          (v1, fs @ [frame], Math_round ((real (i + 1) / real n) * 100)) = (v', fs', p')"
    using Cons.prems unfolding captureLoop.simps Let_def v1_def frame_def .
  from Cons.IH[OF this]
  have r: "video_playbackRate v' = video_playbackRate v1" "video_paused v' = video_paused v1"
    "map frame_time fs' = map frame_time (fs @ [frame]) @ tms"
    "map frame_index fs' = map frame_index (fs @ [frame]) @ [i + 1..<i + 1 + length tms]"
    by simp_all
  have v: "video_playbackRate v1 = video_playbackRate v" "video_paused v1 = video_paused v"
    by (simp_all add: v1_def)
  have u: "[i..<i + length (t # tms)] = i # [i + 1..<i + 1 + length tms]"
    by (simp add: upt_conv_Cons del: upt_Suc)
  show ?case unfolding r v u by (simp add: frame_def)
qed

text \<open>
  A run that gets its context and whose \<^verbatim>\<open>play()\<close> resolves ends with the rate and the
  paused flag the video had before, and with one frame per target timestamp.
\<close>

lemma sampleSelection_completed_restores:
  assumes "st_video st = Some video" "fst (st_videoSize st) \<noteq> 0" "st_duration st \<noteq> 0"
    and "st_selection st = Some selection" "fst selection < snd selection"
    and "env_ctxAvailable env" "env_playResolves env"
  shows "\<exists>st' video'. sampleSelection env st = Some st' \<and> st_video st' = Some video' \<and>
           video_playbackRate video' = video_playbackRate video \<and>
           video_paused video' = video_paused video \<and>
           sampleTimesExact selection (st_duration st) (st_samplingHz st)
             = Some (map frame_time (st_frames st'))"
proof -
  obtain tms where tms: "sampleTimesExact selection (st_duration st) (st_samplingHz st) = Some tms"
    using sampleTimesExact_closed by blast
  show ?thesis
    using assms unfolding sampleSelection_def Let_def
    by (auto simp: tms toast_def split: prod.splits dest!: captureLoop_frame)
qed

end
